theory Spec2Isabelle
  imports Complex_Main
begin

section \<open>Python errors\<close>

text \<open>
  Every exception the modelled code can raise is a value; a function that can raise returns
  \<open>error + 'a\<close> with \<open>Inl\<close> for the exception. The string is the exception's message.
\<close>

datatype error = ValueError string | AssertionError string | IndexError string
  | TypeError string

text \<open>A sequence of computations stops at the first one that raises.\<close>

fun sequence_err :: "(error + 'a) list \<Rightarrow> error + 'a list" where
  "sequence_err [] = Inr []"
| "sequence_err (x # xs) =
     (case x of
        Inl e \<Rightarrow> Inl e
      | Inr v \<Rightarrow> (case sequence_err xs of Inl e \<Rightarrow> Inl e | Inr vs \<Rightarrow> Inr (v # vs)))"

section \<open>Floating-point values\<close>

text \<open>
  A NumPy \<^verbatim>\<open>float64\<close> is modelled as an exact real number or one of the three IEEE special
  values. The arithmetic follows IEEE 754 for the special values (a NaN operand gives NaN,
  \<open>0/0\<close> and \<open>inf - inf\<close> are NaN, a non-zero finite number divided by zero is an
  infinity, every comparison with NaN is false). What is not modelled: the rounding of a
  finite result to the nearest \<^verbatim>\<open>float64\<close>, underflow, and the sign of zero (zero is
  treated as \<open>+0\<close>). The operators \<open>+\<close>, \<open>-\<close>, \<open>*\<close> and \<open>/\<close> below give the exact
  result; the overflow of a finite result to an infinity is the separate function
  \<open>overflow\<close>, which \<open>scale\<close> and \<open>radial_bins\<close> apply to each of their operations:
  they act on data of any magnitude.
\<close>

datatype fl = Fin real | PInf | NInf | NaN

fun isfinite :: "fl \<Rightarrow> bool" where
  "isfinite (Fin a) = True"
| "isfinite v = False"

fun isnan :: "fl \<Rightarrow> bool" where
  "isnan NaN = True"
| "isnan v = False"

fun fl_lt :: "fl \<Rightarrow> fl \<Rightarrow> bool" where
  "fl_lt NaN v = False"
| "fl_lt v NaN = False"
| "fl_lt (Fin a) (Fin b) = (a < b)"
| "fl_lt v NInf = False"
| "fl_lt PInf v = False"
| "fl_lt NInf v = True"
| "fl_lt v PInf = True"

fun fl_le :: "fl \<Rightarrow> fl \<Rightarrow> bool" where
  "fl_le NaN v = False"
| "fl_le v NaN = False"
| "fl_le (Fin a) (Fin b) = (a \<le> b)"
| "fl_le NInf v = True"
| "fl_le v PInf = True"
| "fl_le v NInf = False"
| "fl_le PInf v = False"

instantiation fl :: "{plus, minus, uminus, times, inverse}"
begin

fun uminus_fl :: "fl \<Rightarrow> fl" where
  "uminus_fl (Fin a) = Fin (- a)"
| "uminus_fl PInf = NInf"
| "uminus_fl NInf = PInf"
| "uminus_fl NaN = NaN"

fun plus_fl :: "fl \<Rightarrow> fl \<Rightarrow> fl" where
  "plus_fl (Fin a) (Fin b) = Fin (a + b)"
| "plus_fl NaN v = NaN"
| "plus_fl v NaN = NaN"
| "plus_fl PInf NInf = NaN"
| "plus_fl NInf PInf = NaN"
| "plus_fl PInf v = PInf"
| "plus_fl v PInf = PInf"
| "plus_fl NInf v = NInf"
| "plus_fl v NInf = NInf"

definition minus_fl :: "fl \<Rightarrow> fl \<Rightarrow> fl" where
  "minus_fl a b = a + (- b)"

fun times_fl :: "fl \<Rightarrow> fl \<Rightarrow> fl" where
  "times_fl (Fin a) (Fin b) = Fin (a * b)"
| "times_fl NaN v = NaN"
| "times_fl v NaN = NaN"
| "times_fl (Fin a) v = (if a = 0 then NaN else if 0 < a then v else - v)"
| "times_fl v (Fin b) = (if b = 0 then NaN else if 0 < b then v else - v)"
| "times_fl PInf v = v"
| "times_fl NInf v = - v"

fun divide_fl :: "fl \<Rightarrow> fl \<Rightarrow> fl" where
  "divide_fl (Fin a) (Fin b) =
     (if b \<noteq> 0 then Fin (a / b)
      else if a = 0 then NaN else if 0 < a then PInf else NInf)"
| "divide_fl NaN v = NaN"
| "divide_fl v NaN = NaN"
| "divide_fl (Fin a) v = Fin 0"
| "divide_fl v (Fin b) = (if 0 \<le> b then v else - v)"
| "divide_fl PInf v = NaN"
| "divide_fl NInf v = NaN"

definition inverse_fl :: "fl \<Rightarrow> fl" where
  "inverse_fl v =
     (case v of Fin a \<Rightarrow> (if a \<noteq> 0 then Fin (1 / a) else PInf)
      | PInf \<Rightarrow> Fin 0 | NInf \<Rightarrow> Fin 0 | NaN \<Rightarrow> NaN)"

instance ..

end

text \<open>
  The largest finite \<^verbatim>\<open>float64\<close> is \<open>2^1024 - 2^971\<close>. Rounding to nearest sends an exact
  result whose magnitude reaches \<open>2^1024 - 2^970\<close>, half a unit in the last place above
  it, to the infinity of its sign.
\<close>

definition overflow_bound :: real where
  "overflow_bound = 2 ^ 1024 - 2 ^ 970"

definition overflow :: "fl \<Rightarrow> fl" where
  "overflow v =
     (case v of
        Fin r \<Rightarrow> (if overflow_bound \<le> r then PInf
                  else if r \<le> - overflow_bound then NInf else Fin r)
      | PInf \<Rightarrow> PInf | NInf \<Rightarrow> NInf | NaN \<Rightarrow> NaN)"

text \<open>
  \<^verbatim>\<open>np.fmin\<close> and \<^verbatim>\<open>np.fmax\<close> ignore a NaN operand when the other one is a number;
  \<^verbatim>\<open>np.minimum\<close> and \<^verbatim>\<open>np.maximum\<close> propagate it.
\<close>

definition fl_fmin :: "fl \<Rightarrow> fl \<Rightarrow> fl" where
  "fl_fmin a b = (if isnan a then b else if isnan b then a else if fl_le a b then a else b)"

definition fl_fmax :: "fl \<Rightarrow> fl \<Rightarrow> fl" where
  "fl_fmax a b = (if isnan a then b else if isnan b then a else if fl_le b a then a else b)"

definition fl_minimum :: "fl \<Rightarrow> fl \<Rightarrow> fl" where
  "fl_minimum a b = (if isnan a \<or> isnan b then NaN else if fl_le a b then a else b)"

definition fl_maximum :: "fl \<Rightarrow> fl \<Rightarrow> fl" where
  "fl_maximum a b = (if isnan a \<or> isnan b then NaN else if fl_le b a then a else b)"

section \<open>N-dimensional arrays\<close>

text \<open>
  A NumPy array is its shape and its elements in row-major (C) order, as \<^verbatim>\<open>ravel()\<close>
  lists them. An array is well formed when the number of elements is the product of the
  shape's extents.
\<close>

record 'a ndarray =
  shape :: "nat list"
  flat :: "'a list"

definition wf_array :: "'a ndarray \<Rightarrow> bool" where
  "wf_array a = (length (flat a) = prod_list (shape a))"

definition ndim :: "'a ndarray \<Rightarrow> nat" where
  "ndim a = length (shape a)"

definition size_of :: "'a ndarray \<Rightarrow> nat" where
  "size_of a = prod_list (shape a)"

definition map_array :: "('a \<Rightarrow> 'b) \<Rightarrow> 'a ndarray \<Rightarrow> 'b ndarray" where
  "map_array f a = \<lparr>shape = shape a, flat = map f (flat a)\<rparr>"

text \<open>
  The reductions over all elements. \<^verbatim>\<open>np.nanmin\<close> is \<^verbatim>\<open>np.fmin.reduce\<close>, which raises
  \<^verbatim>\<open>ValueError\<close> on an array without elements and returns NaN (with a warning only) when
  every element is NaN; \<^verbatim>\<open>a.min()\<close> is \<^verbatim>\<open>np.minimum.reduce\<close>.
\<close>

definition reduce :: "(fl \<Rightarrow> fl \<Rightarrow> fl) \<Rightarrow> fl ndarray \<Rightarrow> error + fl" where
  "reduce f a =
     (case flat a of
        [] \<Rightarrow> Inl (ValueError ''zero-size array to reduction operation which has no identity'')
      | x # xs \<Rightarrow> Inr (fold (\<lambda>v acc. f acc v) xs x))"

definition nanmin :: "fl ndarray \<Rightarrow> error + fl" where
  "nanmin a = reduce fl_fmin a"

definition nanmax :: "fl ndarray \<Rightarrow> error + fl" where
  "nanmax a = reduce fl_fmax a"

definition amin :: "fl ndarray \<Rightarrow> error + fl" where
  "amin a = reduce fl_minimum a"

definition amax :: "fl ndarray \<Rightarrow> error + fl" where
  "amax a = reduce fl_maximum a"

section \<open>Rescaling\<close>

text \<open>
  \<^verbatim>\<open>
  def scale(data, dtype=None):
      dmin = np.nanmin(data)
      dmax = np.nanmax(data)
      if dtype is None:
          tmin = 0.0
          tmax = 1.0
      else: ...
      return ((data - dmin) / (dmax - dmin) * (tmax - tmin) + tmin).astype(dtype)
  \<close>
  The model is the call \<^verbatim>\<open>scale(data)\<close> with \<^verbatim>\<open>dtype=None\<close> on an array of
  \<^verbatim>\<open>float64\<close>, the only one \<^verbatim>\<open>richardson_lucy\<close> makes (it casts the PSF to float
  first); \<^verbatim>\<open>astype(None)\<close> keeps \<^verbatim>\<open>float64\<close>. An array of integers, whose differences
  NumPy computes in the integer type with wrap-around, and the branch for an explicit
  \<^verbatim>\<open>dtype\<close>, which needs NumPy's casts, are not modelled. The division is not guarded,
  as in the source. Every operation can overflow: for the data \<open>2^1023\<close> and \<open>-2^1023\<close>
  the difference \<open>dmax - dmin\<close> is infinite.
\<close>

definition scale :: "fl ndarray \<Rightarrow> error + fl ndarray" where
  "scale arr =
     (case nanmin arr of
        Inl e \<Rightarrow> Inl e
      | Inr dmin \<Rightarrow>
          (case nanmax arr of
             Inl e \<Rightarrow> Inl e
           | Inr dmax \<Rightarrow>
               (let tmin = Fin 0; tmax = Fin 1
                in Inr (map_array
                     (\<lambda>v. overflow
                            (overflow
                               (overflow (overflow (v - dmin) / overflow (dmax - dmin))
                                * overflow (tmax - tmin))
                             + tmin))
                     arr))))"

text \<open>
  Multi-indices of a shape in row-major order (\<^verbatim>\<open>np.ndindex\<close>), the flat offset of a
  multi-index (\<^verbatim>\<open>np.ravel_multi_index\<close>), the element at a multi-index, and the array
  built by giving the element at each multi-index.
\<close>

fun indices :: "nat list \<Rightarrow> nat list list" where
  "indices [] = [[]]"
| "indices (n # ns) = concat (map (\<lambda>i. map ((#) i) (indices ns)) [0..<n])"

fun offset :: "nat list \<Rightarrow> nat list \<Rightarrow> nat" where
  "offset (n # ns) (i # is) = i * prod_list ns + offset ns is"
| "offset ns is = 0"

definition item :: "'a ndarray \<Rightarrow> nat list \<Rightarrow> 'a" where
  "item a idx = flat a ! offset (shape a) idx"

definition tabulate :: "nat list \<Rightarrow> (nat list \<Rightarrow> 'a) \<Rightarrow> 'a ndarray" where
  "tabulate s f = \<lparr>shape = s, flat = map f (indices s)\<rparr>"

text \<open>\<^verbatim>\<open>a.sum()\<close> over all elements, starting from \<open>0.0\<close>.\<close>

definition np_sum :: "fl ndarray \<Rightarrow> fl" where
  "np_sum a = fold (\<lambda>v acc. acc + v) (flat a) (Fin 0)"

text \<open>
  \<^verbatim>\<open>np.median\<close> of a sequence of values: NaN when a value is NaN (or there is none), else
  the middle value of the sorted sequence, the mean of the two middle values for an even
  count.
\<close>

fun fl_insort :: "fl \<Rightarrow> fl list \<Rightarrow> fl list" where
  "fl_insort v [] = [v]"
| "fl_insort v (x # xs) = (if fl_le v x then v # x # xs else x # fl_insort v xs)"

definition fl_sort :: "fl list \<Rightarrow> fl list" where
  "fl_sort xs = foldr fl_insort xs []"

definition np_median :: "fl list \<Rightarrow> fl" where
  "np_median xs =
     (if xs = [] \<or> list_ex isnan xs then NaN
      else (let s = fl_sort xs; n = length xs
            in if odd n then s ! (n div 2)
               else (s ! (n div 2 - 1) + s ! (n div 2)) / Fin 2))"

section \<open>Elementwise operations, shifts and slices\<close>

definition bind :: "error + 'a \<Rightarrow> ('a \<Rightarrow> error + 'b) \<Rightarrow> error + 'b" where
  "bind m f = (case m of Inl e \<Rightarrow> Inl e | Inr v \<Rightarrow> f v)"

text \<open>
  A binary operation on two arrays follows NumPy's broadcasting: the shapes are aligned at
  their last axes, two extents are compatible when they are equal or one of them is 1, and
  an axis of extent 1 is read at index 0. Incompatible shapes raise \<^verbatim>\<open>ValueError\<close>.
\<close>

definition broadcast_shape :: "nat list \<Rightarrow> nat list \<Rightarrow> error + nat list" where
  "broadcast_shape s1 s2 =
     (let d = max (length s1) (length s2);
          p1 = replicate (d - length s1) 1 @ s1;
          p2 = replicate (d - length s2) 1 @ s2
      in if list_all (\<lambda>(m, n). m = n \<or> m = 1 \<or> n = 1) (zip p1 p2)
         then Inr (map (\<lambda>(m, n). if m = 1 then n else m) (zip p1 p2))
         else Inl (ValueError ''operands could not be broadcast together''))"

definition bitem :: "'a ndarray \<Rightarrow> nat list \<Rightarrow> 'a" where
  "bitem a idx =
     item a (map (\<lambda>(i, n). if n = 1 then 0 else i)
               (zip (drop (length idx - ndim a) idx) (shape a)))"

definition binop :: "('a \<Rightarrow> 'b \<Rightarrow> 'c) \<Rightarrow> 'a ndarray \<Rightarrow> 'b ndarray \<Rightarrow> error + 'c ndarray"
  where
  "binop f a b =
     bind (broadcast_shape (shape a) (shape b))
       (\<lambda>s. Inr (tabulate s (\<lambda>idx. f (bitem a idx) (bitem b idx))))"

text \<open>
  A value that is either a Python scalar or an array: the source binds \<open>window\<close>,
  \<open>h1_t\<close> and \<open>h2_t\<close> to the number \<open>1.0\<close> or \<open>0\<close> on some paths and to an array on
  others.
\<close>

datatype operand = Scalar fl | Array "fl ndarray"

text \<open>
  A \<^verbatim>\<open>complex128\<close> is a pair of floats (real and imaginary part), multiplied as complex
  numbers are; a real factor is promoted to a complex number with imaginary part 0.
\<close>

type_synonym cfl = "fl \<times> fl"

definition cmul :: "cfl \<Rightarrow> cfl \<Rightarrow> cfl" where
  "cmul z w = (fst z * fst w - snd z * snd w, fst z * snd w + snd z * fst w)"

definition cconj :: "cfl \<Rightarrow> cfl" where
  "cconj z = (fst z, - snd z)"

definition of_fl :: "fl \<Rightarrow> cfl" where
  "of_fl v = (v, Fin 0)"

text \<open>
  \<^verbatim>\<open>ifftshift(x)\<close> rolls every axis of extent \<open>n\<close> by \<open>-(n // 2)\<close>: the element at
  index \<open>i\<close> of the result is the element at \<open>(i + n // 2) mod n\<close> of the argument.
\<close>

definition ifftshift :: "'a ndarray \<Rightarrow> 'a ndarray" where
  "ifftshift a =
     tabulate (shape a)
       (\<lambda>idx. item a (map (\<lambda>(i, n). (i + n div 2) mod n) (zip idx (shape a))))"

text \<open>
  Python's \<^verbatim>\<open>slice(start, stop)\<close> on an axis of extent \<open>n\<close>: a negative bound counts from
  the end, both bounds are clipped to \<open>[0, n]\<close>, and the slice is empty when the start is not
  below the stop. \<open>slice_array\<close> applies one slice per leading axis (\<^verbatim>\<open>arr[tuple(slices)]\<close>);
  more slices than axes is an \<^verbatim>\<open>IndexError\<close>.
\<close>

definition slice_bound :: "nat \<Rightarrow> int \<Rightarrow> nat" where
  "slice_bound n b = (if b < 0 then nat (max (b + int n) 0) else min (nat b) n)"

definition slice_array :: "(int \<times> int) list \<Rightarrow> 'a ndarray \<Rightarrow> error + 'a ndarray" where
  "slice_array sl a =
     (if ndim a < length sl then Inl (IndexError ''too many indices for array'')
      else
        (let lo = map (\<lambda>((b, e), n). slice_bound n b) (zip sl (shape a));
             hi = map (\<lambda>((b, e), n). slice_bound n e) (zip sl (shape a));
             ext = map (\<lambda>(l, h). h - l) (zip lo hi) @ drop (length sl) (shape a)
         in Inr (tabulate ext
              (\<lambda>idx. item a (map (\<lambda>(i, l). i + l) (zip idx (lo @ replicate (ndim a) 0)))))))"

section \<open>Windows\<close>

text \<open>
  \<^verbatim>\<open>
  def win_nd(size, win_func=sig.hann, **kwargs):
      ndim = len(size)
      newshapes = tuple([
          tuple([1 if i != j else k for i in range(ndim)])
          for j, k in enumerate(size)])
      toreturn = 1.0
      for newshape in newshapes:
          toreturn = toreturn * win_func(max(newshape), **kwargs
                                         ).reshape(newshape)
      return toreturn
  \<close>
  The window function is a parameter: it maps a length to a one-dimensional array, given
  here by its elements. \<open>reshape(newshape)\<close> succeeds exactly when the window has \<open>k\<close>
  elements, \<open>k\<close> being the product of \<open>newshape\<close>. The broadcast product of the reshaped
  windows has, at a multi-index, the product of the windows' elements at its components,
  multiplied from the left starting with \<open>1.0\<close>.
\<close>

definition win_nd :: "nat list \<Rightarrow> (nat \<Rightarrow> fl list) \<Rightarrow> error + fl ndarray" where
  "win_nd sz win_func =
     (let ndim = length sz;
          newshapes = map (\<lambda>(j, k). map (\<lambda>i. if i \<noteq> j then 1 else k) [0..<ndim])
                        (zip [0..<ndim] sz)
      in bind (sequence_err
                 (map (\<lambda>newshape.
                         (let w = win_func (fold max newshape 0)
                          in if length w = prod_list newshape then Inr w
                             else Inl (ValueError ''cannot reshape array'')))
                    newshapes))
           (\<lambda>ws. Inr (tabulate sz
                    (\<lambda>idx. fold (\<lambda>(w, i) acc. acc * w ! i) (zip ws idx) (Fin 1)))))"

definition np_ones :: "nat \<Rightarrow> fl list" where
  "np_ones n = replicate n (Fin 1)"

section \<open>Pad-width arithmetic\<close>

text \<open>
  Python integers are unbounded, so they are modelled by \<open>int\<close>; Python's floor division
  \<^verbatim>\<open>//\<close> is \<open>div\<close> on \<open>int\<close> (both round towards minus infinity).

  \<^verbatim>\<open>
  def _calc_pad(oldnum, newnum):
      width = newnum - oldnum
      pad1 = width // 2
      pad2 = width - pad1
      return (pad2, pad1)
  \<close>
  The leading underscore of the source's name is dropped.
\<close>

definition calc_pad :: "int \<Rightarrow> int \<Rightarrow> int \<times> int" where
  "calc_pad oldnum newnum =
     (let width = newnum - oldnum;
          pad1 = width div 2;
          pad2 = width - pad1
      in (pad2, pad1))"

section \<open>Padding\<close>

text \<open>
  \<^verbatim>\<open>
  def nextpow2(n):
      if n < 0 or not isinstance(n, int):
          raise ValueError('n must be a positive integer, n = {}'.format(n))
      return 1 << (n - 1).bit_length()
  \<close>
  The argument is an \<open>int\<close> by its type here. \<^verbatim>\<open>int.bit_length\<close> is the number of binary
  digits of the absolute value.
\<close>

fun nat_bit_length :: "nat \<Rightarrow> nat" where
  "nat_bit_length n = (if n = 0 then 0 else Suc (nat_bit_length (n div 2)))"

declare nat_bit_length.simps [simp del]

definition bit_length :: "int \<Rightarrow> nat" where
  "bit_length k = nat_bit_length (nat \<bar>k\<bar>)"

definition nextpow2 :: "int \<Rightarrow> error + int" where
  "nextpow2 n =
     (if n < 0 then Inl (ValueError ''n must be a positive integer'')
      else Inr (2 ^ bit_length (n - 1)))"

text \<open>
  \<^verbatim>\<open>np.pad(array, pad_width, mode)\<close> for the two modes the module uses. \<open>pad_width\<close> is
  a sequence of \<open>(before, after)\<close> pairs: one pair per axis, or a single pair that NumPy
  broadcasts to every axis. NumPy turns the sequence into an array first: the empty
  sequence, which \<open>fft_pad\<close> builds for an array without axes, becomes an array of
  floats and is a \<^verbatim>\<open>TypeError\<close>. A negative width is a \<^verbatim>\<open>ValueError\<close>, and after that
  test so is a number of pairs that is neither one nor the number of axes.
  \<^item> \<^verbatim>\<open>'constant'\<close> (with the default \<^verbatim>\<open>constant_values=0\<close>) fills the new cells with zero.
  \<^item> \<^verbatim>\<open>'median'\<close> (with the default \<^verbatim>\<open>stat_length=None\<close>) works axis by axis, in order:
    along the axis, each one-dimensional line of the array padded so far is extended on
    both sides with the median of that line. An axis without elements cannot be extended.
\<close>

datatype pad_mode = Constant | Median

definition inside :: "nat list \<Rightarrow> nat list \<Rightarrow> nat list \<Rightarrow> bool" where
  "inside befores extents idx =
     list_all (\<lambda>(i, b, n). b \<le> i \<and> i < b + n) (zip idx (zip befores extents))"

definition padded_shape :: "nat list \<Rightarrow> (nat \<times> nat) list \<Rightarrow> nat list" where
  "padded_shape s pads = map (\<lambda>(n, b, e). b + n + e) (zip s pads)"

definition pad_constant :: "(nat \<times> nat) list \<Rightarrow> fl ndarray \<Rightarrow> fl ndarray" where
  "pad_constant pads a =
     tabulate (padded_shape (shape a) pads)
       (\<lambda>idx. if inside (map fst pads) (shape a) idx
              then item a (map (\<lambda>(i, b). i - b) (zip idx (map fst pads)))
              else Fin 0)"

definition pad_median_axis :: "nat \<Rightarrow> nat \<times> nat \<Rightarrow> fl ndarray \<Rightarrow> fl ndarray" where
  "pad_median_axis k p a =
     (let n = shape a ! k; b = fst p; e = snd p
      in tabulate ((shape a)[k := b + n + e])
           (\<lambda>idx. let i = idx ! k
                  in if b \<le> i \<and> i < b + n then item a (idx[k := i - b])
                     else np_median (map (\<lambda>t. item a (idx[k := t])) [0..<n])))"

definition pad_median :: "(nat \<times> nat) list \<Rightarrow> fl ndarray \<Rightarrow> fl ndarray" where
  "pad_median pads a =
     fold (\<lambda>(k, p) acc. pad_median_axis k p acc) (zip [0..<length pads] pads) a"

definition np_pad :: "fl ndarray \<Rightarrow> (int \<times> int) list \<Rightarrow> pad_mode \<Rightarrow> error + fl ndarray"
  where
  "np_pad a pad_width mode =
     (if pad_width = [] then Inl (TypeError ''`pad_width` must be of integral type.'')
      else if list_ex (\<lambda>(b, e). b < 0 \<or> e < 0) pad_width
      then Inl (ValueError ''index can't contain negative values'')
      else
        (let pw = (if length pad_width = ndim a then pad_width
                   else replicate (ndim a) (hd pad_width))
         in if length pad_width \<noteq> ndim a \<and> length pad_width \<noteq> 1
            then Inl (ValueError ''operands could not be broadcast together with remapped shapes'')
            else
              (let pads = map (\<lambda>(b, e). (nat b, nat e)) pw
               in case mode of
                    Constant \<Rightarrow> Inr (pad_constant pads a)
                  | Median \<Rightarrow>
                      (if list_ex (\<lambda>(n, b, e). n = 0 \<and> (0 < b \<or> 0 < e)) (zip (shape a) pads)
                       then Inl (ValueError ''can't extend empty axis using modes other than constant'')
                       else Inr (pad_median pads a)))))"

text \<open>
  \<^verbatim>\<open>
  def fft_pad(array, pad_width=None, mode='median', **kwargs):
      oldshape = array.shape
      if pad_width is None:
          newshape = tuple(nextpow2(n) for n in oldshape)
      else:
          if isinstance(pad_width, int):
              newshape = tuple(pad_width for n in oldshape)
          else:
              newshape = tuple(pad_width)
      padding = tuple(_calc_pad(o, n) if n is not None else _calc_pad(o, o)
                      for o, n in zip(oldshape, newshape))
      # TODO: add part to deal with cropping here (if padding is negative)
      return np.pad(array, padding, mode=mode, **kwargs)
  \<close>
  The three forms of \<open>pad_width\<close> are a datatype; \<open>zip\<close> stops at the shorter sequence
  in Python as in HOL. There is no cropping: a target extent below the array's gives a
  negative pad width, which \<^verbatim>\<open>np.pad\<close> rejects.
\<close>

datatype pad_width = PadNone | PadInt int | PadSeq "int option list"

definition fft_pad :: "fl ndarray \<Rightarrow> pad_width \<Rightarrow> pad_mode \<Rightarrow> error + fl ndarray" where
  "fft_pad array pw mode =
     (let oldshape = map int (shape array)
      in case (case pw of
                 PadNone \<Rightarrow>
                   (case sequence_err (map nextpow2 oldshape) of
                      Inl e \<Rightarrow> Inl e
                    | Inr ns \<Rightarrow> Inr (map Some ns))
               | PadInt w \<Rightarrow> Inr (map (\<lambda>n. Some w) oldshape)
               | PadSeq ns \<Rightarrow> Inr ns) of
           Inl e \<Rightarrow> Inl e
         | Inr newshape \<Rightarrow>
             (let padding = map (\<lambda>(old, n). case n of Some new \<Rightarrow> calc_pad old new
                                                     | None \<Rightarrow> calc_pad old old)
                              (zip oldshape newshape)
              in np_pad array padding mode))"

text \<open>
  The pad widths \<open>fft_pad\<close> hands to \<^verbatim>\<open>np.pad\<close> for an array of shape \<open>sp\<close> and a
  target shape \<open>s\<close> that is nowhere smaller, as natural numbers.
\<close>

definition pad_before :: "nat \<Rightarrow> nat \<Rightarrow> nat" where
  "pad_before n m = (m - n) - (m - n) div 2"

definition pad_amounts :: "nat list \<Rightarrow> nat list \<Rightarrow> (nat \<times> nat) list" where
  "pad_amounts sp s = map (\<lambda>(n, m). (pad_before n m, (m - n) div 2)) (zip sp s)"

section \<open>The Fourier transforms the module imports\<close>

text \<open>
  The module binds \<^verbatim>\<open>fftn\<close>, \<^verbatim>\<open>ifftn\<close>, \<^verbatim>\<open>rfftn\<close> and \<^verbatim>\<open>irfftn\<close> at import time, to
  \<^verbatim>\<open>pyfftw\<close>'s functions when that package is installed and to \<^verbatim>\<open>numpy.fft\<close>'s otherwise,
  and it imports the unitary pair \<^verbatim>\<open>urfftn\<close>, \<^verbatim>\<open>uirfftn\<close> from its sibling module
  \<^verbatim>\<open>uft\<close>. The functions below take these transforms as a record, so that every statement
  proved for an arbitrary record holds for whichever implementation is bound. Each transform
  may raise: the functions of \<^verbatim>\<open>numpy.fft\<close>, for one, do not take the \<^verbatim>\<open>threads\<close>
  argument that \<^verbatim>\<open>fftconvolve\<close> passes, so with that binding \<open>rfftn\<close> is the function
  that returns a \<^verbatim>\<open>TypeError\<close>. \<open>rfft_path\<close> is the value of the test
  \<^verbatim>\<open>_rfft_mt_safe or _rfft_lock.acquire(False)\<close>, which selects the real-input path of
  \<^verbatim>\<open>fftconvolve\<close>.
\<close>

record backend =
  rfftn :: "fl ndarray \<Rightarrow> int \<Rightarrow> error + cfl ndarray"
  irfftn :: "cfl ndarray \<Rightarrow> nat list \<Rightarrow> int \<Rightarrow> error + fl ndarray"
  fftn :: "fl ndarray \<Rightarrow> nat list \<Rightarrow> error + cfl ndarray"
  ifftn :: "cfl ndarray \<Rightarrow> error + cfl ndarray"
  urfftn :: "fl ndarray \<Rightarrow> error + cfl ndarray"
  uirfftn :: "cfl ndarray \<Rightarrow> error + fl ndarray"
  rfft_path :: bool

section \<open>Spectral convolution\<close>

text \<open>
  \<^verbatim>\<open>scipy.fftpack.helper.next_fast_len(target)\<close> returns \<open>target\<close> itself up to 6 and
  otherwise the smallest number not below \<open>target\<close> whose only prime factors are 2, 3
  and 5. The power of two that \<open>nextpow2\<close> computes is such a number, so the search
  stops there at the latest.
\<close>

function strip_factor :: "nat \<Rightarrow> nat \<Rightarrow> nat" where
  "strip_factor p n = (if 1 < p \<and> 0 < n \<and> p dvd n then strip_factor p (n div p) else n)"
  by pat_completeness auto
termination
  by (relation "measure snd") auto

declare strip_factor.simps [simp del]

definition smooth5 :: "nat \<Rightarrow> bool" where
  "smooth5 n = (strip_factor 5 (strip_factor 3 (strip_factor 2 n)) = 1)"

definition next_fast_len :: "nat \<Rightarrow> nat" where
  "next_fast_len target =
     (if target \<le> 6 then target
      else (let hi = 2 ^ bit_length (int target - 1)
            in hd (filter smooth5 [target..<hi] @ [hi])))"

text \<open>
  \<^verbatim>\<open>scipy.signal.signaltools._inputs_swap_needed(mode, shape1, shape2)\<close>: only in
  \<^verbatim>\<open>'valid'\<close> mode can the operands be swapped, and there one of them must be at least as
  large as the other along every axis.
\<close>

definition inputs_swap_needed :: "string \<Rightarrow> nat list \<Rightarrow> nat list \<Rightarrow> error + bool" where
  "inputs_swap_needed mode shape1 shape2 =
     (if mode = ''valid'' then
        (let ok1 = list_all (\<lambda>(d1, d2). d1 \<ge> d2) (zip shape1 shape2);
             ok2 = list_all (\<lambda>(d1, d2). d2 \<ge> d1) (zip shape1 shape2)
         in if \<not> (ok1 \<or> ok2)
            then Inl (ValueError ''For valid mode, one must be at least as large as the other in every dimension'')
            else Inr (\<not> ok1))
      else Inr False)"

text \<open>
  \<^verbatim>\<open>
  def _centered(arr, newshape):
      newshape = asarray(newshape)
      currshape = array(arr.shape)
      startind = (currshape - newshape) // 2
      endind = startind + newshape
      myslice = [slice(startind[k], endind[k]) for k in range(len(endind))]
      return arr[tuple(myslice)]
  \<close>
  The difference \<^verbatim>\<open>currshape - newshape\<close> broadcasts two one-dimensional arrays: they
  must have the same length unless one of them has a single element, which is then
  repeated. There is one slice per element of the broadcast result; more slices than axes
  is the \<^verbatim>\<open>IndexError\<close> of \<open>slice_array\<close>.
\<close>

definition centered :: "'a ndarray \<Rightarrow> int list \<Rightarrow> error + 'a ndarray" where
  "centered arr newshape =
     (let currshape = map int (shape arr);
          d = length currshape; k = length newshape
      in if d \<noteq> k \<and> d \<noteq> 1 \<and> k \<noteq> 1
         then Inl (ValueError ''operands could not be broadcast together'')
         else
           (let cs = (if d = k \<or> k = 1 then currshape else replicate k (hd currshape));
                ns = (if d = k \<or> d = 1 then newshape else replicate d (hd newshape))
            in slice_array (map (\<lambda>(c, n). ((c - n) div 2, (c - n) div 2 + n)) (zip cs ns)) arr))"

text \<open>
  \<^verbatim>\<open>fftconvolve(in1, in2, mode="full", threads=1, win_func=np.ones)\<close> for real operands
  (\<open>complex_result\<close> is false). Python evaluates the operands of a product from left to
  right, which fixes the order in which the steps below can raise. The operand test at the
  top comes before anything else, the mode is looked at only in \<open>_inputs_swap_needed\<close> and
  at the very end.
\<close>

definition fftconvolve ::
  "backend \<Rightarrow> fl ndarray \<Rightarrow> fl ndarray \<Rightarrow> string \<Rightarrow> int \<Rightarrow> (nat \<Rightarrow> fl list)
    \<Rightarrow> error + fl ndarray" where
  "fftconvolve B in1 in2 mode threads win_func =
     (if ndim in1 = ndim in2 \<and> ndim in2 = 0 then binop (*) in1 in2
      else if \<not> ndim in1 = ndim in2
      then Inl (ValueError ''in1 and in2 should have the same dimensionality'')
      else if size_of in1 = 0 \<or> size_of in2 = 0 then Inr \<lparr>shape = [0], flat = []\<rparr>
      else
        (let s1 = shape in1; s2 = shape in2;
             shp = map (\<lambda>(a, b). max a b) (zip s1 s2)
         in bind (inputs_swap_needed mode s1 s2) (\<lambda>swap.
            let in1' = (if swap then in2 else in1); s1' = (if swap then s2 else s1);
                in2' = (if swap then in1 else in2); s2' = (if swap then s1 else s2);
                fshape = map next_fast_len shp;
                fslice = map (\<lambda>sz. (0, int sz)) shp;
                target = PadSeq (map (\<lambda>n. Some (int n)) fshape)
            in bind
                 (if rfft_path B then
                    (let winshape = butlast fshape @ [last fshape div 2 + 1]
                     in bind (fft_pad in1' target Median) (\<lambda>p1.
                        bind (rfftn B p1 threads) (\<lambda>f1.
                        bind (fft_pad in2' target Constant) (\<lambda>p2.
                        bind (rfftn B (ifftshift p2) threads) (\<lambda>f2.
                        bind (binop cmul f1 f2) (\<lambda>f12.
                        bind (win_nd winshape win_func) (\<lambda>w.
                        bind (binop (\<lambda>z v. cmul z (of_fl v)) f12 (ifftshift w)) (\<lambda>f12w.
                        bind (irfftn B f12w fshape threads) (\<lambda>r.
                        slice_array fslice r)))))))))
                  else
                    bind (fftn B in1' fshape) (\<lambda>f1.
                    bind (fftn B in2' fshape) (\<lambda>f2.
                    bind (binop cmul f1 f2) (\<lambda>f12.
                    bind (ifftn B f12) (\<lambda>r.
                    bind (slice_array fslice r) (\<lambda>ret.
                    Inr (map_array fst ret)))))))
                 (\<lambda>ret.
                    if mode = ''full'' then Inr ret
                    else if mode = ''same'' then centered ret (map int s1')
                    else if mode = ''valid''
                    then centered ret (map (\<lambda>(a, b). int a - int b + 1) (zip s1' s2'))
                    else Inl (ValueError ''Acceptable mode flags are valid, same, or full.'')))))"

text \<open>
  Direct (spatial-domain) linear convolution of two arrays of the same rank, the reference
  the specification compares \<open>fftconvolve\<close> with: the result has extent \<open>s1 + s2 - 1\<close> along
  every axis, and its element at \<open>n\<close> is the sum of \<open>in1[k] * in2[n - k]\<close> over the
  multi-indices \<open>k\<close> of \<open>in1\<close> for which \<open>n - k\<close> is a multi-index of \<open>in2\<close>.
\<close>

definition direct_convolve :: "fl ndarray \<Rightarrow> fl ndarray \<Rightarrow> fl ndarray" where
  "direct_convolve in1 in2 =
     tabulate (map (\<lambda>(a, b). a + b - 1) (zip (shape in1) (shape in2)))
       (\<lambda>n. fold (\<lambda>k acc. acc + item in1 k * item in2 (map (\<lambda>(a, b). a - b) (zip n k)))
              (filter (\<lambda>k. list_all (\<lambda>((a, b), e). b \<le> a \<and> a - b < e) (zip (zip n k) (shape in2)))
                 (indices (shape in1)))
              (Fin 0))"

section \<open>A concrete set of transforms\<close>

text \<open>
  The discrete Fourier transforms as \<^verbatim>\<open>pyfftw.interfaces.numpy_fft\<close> and \<^verbatim>\<open>numpy.fft\<close>
  document them, computed by their defining sums in the arithmetic of \<open>fl\<close>. The forward
  transform of an array of shape \<open>s\<close> is
  \<open>X[k] = \<Sum>n. x[n] * exp (- 2 \<pi> i * \<Sum>j. k\<^sub>j n\<^sub>j / s\<^sub>j)\<close>, the inverse has the opposite sign in
  the exponent and the factor \<open>1 / prod s\<close>. The real-input transform keeps the indices up
  to \<open>s // 2\<close> of the last axis; its inverse restores the other half by Hermitian symmetry
  and returns the real part. An input is cropped or padded with zeros to the requested
  shape. A transform of no data points raises \<^verbatim>\<open>ValueError\<close>. The \<open>threads\<close> argument of
  \<^verbatim>\<open>pyfftw\<close> does not change the result.
\<close>

definition csum :: "cfl list \<Rightarrow> cfl" where
  "csum zs = fold (\<lambda>z acc. (fst acc + fst z, snd acc + snd z)) zs (Fin 0, Fin 0)"

definition angle :: "nat list \<Rightarrow> nat list \<Rightarrow> nat list \<Rightarrow> real" where
  "angle s k n =
     2 * pi * sum_list (map (\<lambda>(kj, nj, sj). real (kj * nj) / real sj) (zip k (zip n s)))"

definition twiddle :: "real \<Rightarrow> nat list \<Rightarrow> nat list \<Rightarrow> nat list \<Rightarrow> cfl" where
  "twiddle sign s k n = (Fin (cos (angle s k n)), Fin (sign * sin (angle s k n)))"

definition dft_sum :: "real \<Rightarrow> nat list \<Rightarrow> (nat list \<Rightarrow> cfl) \<Rightarrow> nat list \<Rightarrow> cfl" where
  "dft_sum sign s x k = csum (map (\<lambda>n. cmul (x n) (twiddle sign s k n)) (indices s))"

definition item_or_zero :: "cfl ndarray \<Rightarrow> nat list \<Rightarrow> cfl" where
  "item_or_zero a k = (if list_all2 (<) k (shape a) then item a k else (Fin 0, Fin 0))"

definition no_points :: "nat list \<Rightarrow> bool" where
  "no_points s = (s = [] \<or> 0 \<in> set s)"

definition half_shape :: "nat list \<Rightarrow> nat list" where
  "half_shape s = butlast s @ [last s div 2 + 1]"

definition np_rfftn :: "fl ndarray \<Rightarrow> error + cfl ndarray" where
  "np_rfftn a =
     (if no_points (shape a) then Inl (ValueError ''Invalid number of FFT data points'')
      else Inr (tabulate (half_shape (shape a))
                  (dft_sum (- 1) (shape a) (\<lambda>n. of_fl (item a n)))))"

definition hermitian :: "cfl ndarray \<Rightarrow> nat list \<Rightarrow> nat list \<Rightarrow> cfl" where
  "hermitian a s k =
     (if last k \<le> last s div 2 then item_or_zero a k
      else cconj (item_or_zero a (map (\<lambda>(kj, sj). (sj - kj) mod sj) (zip k s))))"

definition np_irfftn :: "cfl ndarray \<Rightarrow> nat list \<Rightarrow> error + fl ndarray" where
  "np_irfftn a s =
     (if no_points s \<or> length s \<noteq> ndim a
      then Inl (ValueError ''Invalid number of FFT data points'')
      else Inr (tabulate s
                  (\<lambda>n. fst (dft_sum 1 s (hermitian a s) n) / Fin (real (prod_list s)))))"

definition np_fftn :: "fl ndarray \<Rightarrow> nat list \<Rightarrow> error + cfl ndarray" where
  "np_fftn a s =
     (if no_points s \<or> length s \<noteq> ndim a
      then Inl (ValueError ''Invalid number of FFT data points'')
      else Inr (tabulate s (dft_sum (- 1) s (item_or_zero (map_array of_fl a)))))"

definition np_ifftn :: "cfl ndarray \<Rightarrow> error + cfl ndarray" where
  "np_ifftn a =
     (if no_points (shape a) then Inl (ValueError ''Invalid number of FFT data points'')
      else Inr (tabulate (shape a)
                  (\<lambda>n. let z = dft_sum 1 (shape a) (item a) n; c = Fin (real (prod_list (shape a)))
                       in (fst z / c, snd z / c))))"

text \<open>
  Modelled from the spec: the unitary transform pair \<^verbatim>\<open>urfftn\<close>, \<^verbatim>\<open>uirfftn\<close> of the
  module \<^verbatim>\<open>uft\<close>, which is not among the source files. The specification describes it as
  the real-to-complex transform and its inverse "normalized so forward and inverse
  operations are exact adjoints/inverses and total energy is preserved": the forward
  transform is divided by the square root of the number of data points and the inverse is
  multiplied by it. \<^verbatim>\<open>richardson_lucy\<close> calls \<^verbatim>\<open>uirfftn\<close> without a shape, so the last axis
  of its result has the even extent \<open>2 * (m - 1)\<close> for a spectrum of extent \<open>m\<close>.
\<close>

definition spec_urfftn :: "fl ndarray \<Rightarrow> error + cfl ndarray" where
  "spec_urfftn a =
     bind (np_rfftn a)
       (\<lambda>f. Inr (map_array (\<lambda>z. (fst z / Fin (sqrt (real (prod_list (shape a)))),
                                  snd z / Fin (sqrt (real (prod_list (shape a)))))) f))"

definition spec_uirfftn :: "cfl ndarray \<Rightarrow> error + fl ndarray" where
  "spec_uirfftn a =
     (let s = butlast (shape a) @ [2 * (last (shape a) - 1)]
      in bind (np_irfftn a s)
           (\<lambda>r. Inr (map_array (\<lambda>v. v * Fin (sqrt (real (prod_list s)))) r)))"

definition pyfftw_backend :: backend where
  "pyfftw_backend =
     \<lparr>rfftn = (\<lambda>a threads. np_rfftn a),
      irfftn = (\<lambda>a s threads. np_irfftn a s),
      fftn = np_fftn,
      ifftn = np_ifftn,
      urfftn = spec_urfftn,
      uirfftn = spec_uirfftn,
      rfft_path = True\<rparr>"

section \<open>Richardson-Lucy deconvolution\<close>

text \<open>
  \<^verbatim>\<open>
  def enusure_positive(a, eps=0):
      assert np.isfinite(a).all(), 'The array has NaNs'
      a[a < 0] = eps
  \<close>
  The in-place update is returned as the new array.
\<close>

definition enusure_positive :: "fl ndarray \<Rightarrow> fl \<Rightarrow> error + fl ndarray" where
  "enusure_positive a eps =
     (if list_all isfinite (flat a)
      then Inr (map_array (\<lambda>v. if fl_lt v (Fin 0) then eps else v) a)
      else Inl (AssertionError ''The array has NaNs''))"

text \<open>
  The normalised point spread function, the two statements below (the source's \<open>image\<close>
  is \<open>img\<close> here and in what follows, \<open>image\<close> being HOL's image of a set)
  \<^verbatim>\<open>
  psf_norm = fft_pad(scale(psf), image.shape, mode='constant')
  psf_norm /= psf_norm.sum()
  \<close>
\<close>

definition psf_normalize :: "fl ndarray \<Rightarrow> fl ndarray \<Rightarrow> error + fl ndarray" where
  "psf_normalize img psf =
     bind (scale psf) (\<lambda>scaled.
     bind (fft_pad scaled (PadSeq (map (\<lambda>n. Some (int n)) (shape img))) Constant) (\<lambda>padded.
     Inr (map_array (\<lambda>v. v / np_sum padded) padded)))"

text \<open>
  The normalisation as the specification words it: the same two statements with the padding
  that replicates the median. It is the reference C1 is compared with, not the code.
\<close>

definition psf_normalize_median_spec :: "fl ndarray \<Rightarrow> fl ndarray \<Rightarrow> error + fl ndarray" where
  "psf_normalize_median_spec img psf =
     bind (scale psf) (\<lambda>scaled.
     bind (fft_pad scaled (PadSeq (map (\<lambda>n. Some (int n)) (shape img))) Median) (\<lambda>padded.
     Inr (map_array (\<lambda>v. v / np_sum padded) padded)))"

text \<open>
  The variables of the loop. \<^verbatim>\<open>None\<close> is \<open>None\<close>; \<open>h1_t\<close> and \<open>h2_t\<close> are unbound
  before their first assignment, which is \<open>None\<close> here as well. \<open>alpha\<close> is assigned at
  the start of every iteration before it is read; its initial value is never used.
\<close>

record rl_state =
  u_tm2 :: "fl ndarray option"
  u_tm1 :: "fl ndarray option"
  u_t :: "fl ndarray option"
  g_tm2 :: "fl ndarray option"
  g_tm1 :: "fl ndarray option"
  y_t :: "fl ndarray"
  alpha :: fl
  h1_t :: "operand option"
  h2_t :: "operand option"

definition rl_init :: "fl ndarray \<Rightarrow> rl_state" where
  "rl_init img =
     \<lparr>u_tm2 = None, u_tm1 = None, u_t = None, g_tm2 = None, g_tm1 = None,
      y_t = img, alpha = Fin 0, h1_t = None, h2_t = None\<rparr>"

text \<open>Arithmetic with a variable that may hold \<^verbatim>\<open>None\<close> or be unbound.\<close>

definition bound :: "'a option \<Rightarrow> error + 'a" where
  "bound v = (case v of None \<Rightarrow> Inl (TypeError ''unsupported operand: None or unbound'')
                      | Some a \<Rightarrow> Inr a)"

fun smul :: "fl \<Rightarrow> operand \<Rightarrow> operand" where
  "smul c (Scalar s) = Scalar (c * s)"
| "smul c (Array b) = Array (map_array (\<lambda>v. c * v) b)"

fun add_operand :: "fl ndarray \<Rightarrow> operand \<Rightarrow> error + fl ndarray" where
  "add_operand a (Scalar s) = Inr (map_array (\<lambda>v. v + s) a)"
| "add_operand a (Array b) = binop (+) a b"

text \<open>
  Python's built-in \<^verbatim>\<open>min(a, b)\<close> returns \<open>b\<close> only when \<open>b < a\<close>, and \<^verbatim>\<open>max(a, b)\<close>
  returns \<open>b\<close> only when \<open>b > a\<close>; with a NaN first argument both return the NaN.
\<close>

definition py_min :: "fl \<Rightarrow> fl \<Rightarrow> fl" where
  "py_min a b = (if fl_lt b a then b else a)"

definition py_max :: "fl \<Rightarrow> fl \<Rightarrow> fl" where
  "py_max a b = (if fl_lt a b then b else a)"

text \<open>
  The acceleration coefficient of iteration \<open>i\<close>, lines 357 to 368:
  \<^verbatim>\<open>
  alpha = 0
  if i > 1:
      alpha = (g_tm1 * g_tm2).sum() / (g_tm2**2).sum()
      alpha = max(min(alpha, 1), 0)
      if not np.isfinite(alpha):
          print(alpha)
          alpha = 0
      assert alpha >= 0, alpha
      assert alpha <= 1, alpha
  \<close>
  Here \<open>g_tm1\<close> is the residual \<open>u_tp1 - y_t\<close> of the iteration that is running and
  \<open>g_tm2\<close> the residual of the iteration before it.
\<close>

definition rl_alpha :: "nat \<Rightarrow> fl ndarray \<Rightarrow> fl ndarray option \<Rightarrow> error + fl" where
  "rl_alpha i g1 g2opt =
     (if i > 1 then
        bind (bound g2opt) (\<lambda>g2.
        bind (binop (*) g1 g2) (\<lambda>g12.
        let a0 = np_sum g12 / np_sum (map_array (\<lambda>v. v * v) g2);
            a1 = py_max (py_min a0 (Fin 1)) (Fin 0);
            a2 = (if \<not> isfinite a1 then Fin 0 else a1)
        in if \<not> fl_le (Fin 0) a2 then Inl (AssertionError ''alpha >= 0'')
           else if \<not> fl_le a2 (Fin 1) then Inl (AssertionError ''alpha <= 1'')
           else Inr a2))
      else Inr (Fin 0))"

text \<open>
  The predicted step, lines 370 to 384. On the path \<open>alpha != 0\<close> with
  \<open>prediction_order <= 0\<close> only \<open>h1_t\<close> is assigned: \<open>h2_t\<close> keeps the value of the
  iteration before.
\<close>

definition rl_predict ::
  "int \<Rightarrow> fl \<Rightarrow> fl ndarray \<Rightarrow> fl ndarray option \<Rightarrow> fl ndarray option \<Rightarrow> operand option
    \<Rightarrow> error + (operand option \<times> operand option)" where
  "rl_predict prediction_order al ut utm1 utm2 h2_old =
     (if al \<noteq> Fin 0 then
        (if prediction_order > 0 then
           bind (bound utm1) (\<lambda>um1.
           bind (binop (-) ut um1) (\<lambda>h1.
           if prediction_order > 1 then
             bind (binop (-) ut (map_array (\<lambda>v. Fin 2 * v) um1)) (\<lambda>d.
             bind (bound utm2) (\<lambda>um2.
             bind (binop (+) d um2) (\<lambda>h2.
             Inr (Some (Array h1), Some (Array h2)))))
           else Inr (Some (Array h1), Some (Scalar (Fin 0)))))
         else Inr (Some (Scalar (Fin 0)), h2_old))
      else Inr (Some (Scalar (Fin 0)), Some (Scalar (Fin 0))))"

text \<open>
  One pass through the body of the loop, lines 336 to 388, for the loop index \<open>i\<close>.
  \<^verbatim>\<open>np.real\<close> of the real array \<^verbatim>\<open>uirfftn\<close> returns is that array.
\<close>

definition rl_step ::
  "backend \<Rightarrow> fl ndarray \<Rightarrow> cfl ndarray \<Rightarrow> int \<Rightarrow> nat \<Rightarrow> rl_state \<Rightarrow> error + rl_state"
  where
  "rl_step B img otf prediction_order i st =
     bind (urfftn B (y_t st)) (\<lambda>fy.
     bind (binop cmul otf fy) (\<lambda>prod1.
     bind (uirfftn B prod1) (\<lambda>reblur.
     bind (binop (/) img reblur) (\<lambda>im_ratio.
     bind (urfftn B im_ratio) (\<lambda>fr.
     bind (binop cmul (map_array cconj otf) fr) (\<lambda>prod2.
     bind (uirfftn B prod2) (\<lambda>estimate.
     bind (binop (*) (y_t st) estimate) (\<lambda>raw.
     let u_tp1 = map_array (\<lambda>v. if fl_lt v (Fin 0) then Fin 0 else v) raw
     in bind (binop (-) u_tp1 (y_t st)) (\<lambda>g.
        bind (rl_alpha i g (g_tm1 st)) (\<lambda>al.
        bind (rl_predict prediction_order al u_tp1 (u_t st) (u_tm1 st) (h2_t st)) (\<lambda>h.
        bind (bound (fst h)) (\<lambda>h1.
        bind (add_operand u_tp1 (smul al h1)) (\<lambda>s1.
        bind (bound (snd h)) (\<lambda>h2.
        bind (add_operand s1 (smul (al * al / Fin 2) h2)) (\<lambda>y0.
        bind (enusure_positive y0 (Fin 0)) (\<lambda>y1.
        if \<not> list_all (\<lambda>v. fl_le (Fin 0) v) (flat y1) then Inl (AssertionError ''y_t >= 0'')
        else Inr \<lparr>u_tm2 = u_tm1 st, u_tm1 = u_t st, u_t = Some u_tp1,
                  g_tm2 = g_tm1 st, g_tm1 = Some g,
                  y_t = y1, alpha = al, h1_t = fst h, h2_t = snd h\<rparr>))))))))))))))))"

text \<open>
  \<^verbatim>\<open>for i in range(iterations)\<close>: \<open>n\<close> passes remain, the next one has index \<open>i\<close>. An
  exception in a pass ends the loop.
\<close>

primrec rl_loop ::
  "backend \<Rightarrow> fl ndarray \<Rightarrow> cfl ndarray \<Rightarrow> int \<Rightarrow> nat \<Rightarrow> nat \<Rightarrow> rl_state \<Rightarrow> error + rl_state"
  where
  "rl_loop B img otf prediction_order 0 i st = Inr st"
| "rl_loop B img otf prediction_order (Suc n) i st =
     bind (rl_step B img otf prediction_order i st)
       (\<lambda>st'. rl_loop B img otf prediction_order n (Suc i) st')"

text \<open>
  \<^verbatim>\<open>richardson_lucy(image, psf, iterations=10, clip=False, prediction_order=2,
  win_func=None)\<close>. The result is \<^verbatim>\<open>None\<close> when the loop does not run, and clipping
  \<^verbatim>\<open>None\<close> is a \<^verbatim>\<open>TypeError\<close>.
\<close>

definition rl_window :: "fl ndarray \<Rightarrow> (nat \<Rightarrow> fl list) option \<Rightarrow> error + operand" where
  "rl_window img win_func =
     (case win_func of
        None \<Rightarrow> Inr (Scalar (Fin 1))
      | Some wfun \<Rightarrow>
          (if shape img = [] then Inl (IndexError ''index -1 is out of bounds'')
           else bind (win_nd (butlast (shape img) @ [last (shape img) div 2 + 1]) wfun)
                  (\<lambda>w. Inr (Array (ifftshift w)))))"

definition rl_otf :: "backend \<Rightarrow> operand \<Rightarrow> fl ndarray \<Rightarrow> error + cfl ndarray" where
  "rl_otf B window psf_norm =
     bind (urfftn B (ifftshift psf_norm)) (\<lambda>f.
       case window of
         Scalar w \<Rightarrow> Inr (map_array (\<lambda>z. cmul (of_fl w) z) f)
       | Array w \<Rightarrow> binop (\<lambda>v z. cmul (of_fl v) z) w f)"

definition rl_clip :: "fl ndarray \<Rightarrow> fl ndarray" where
  "rl_clip a =
     map_array (\<lambda>v. if fl_lt v (Fin (- 1)) then Fin (- 1) else v)
       (map_array (\<lambda>v. if fl_lt (Fin 1) v then Fin 1 else v) a)"

definition richardson_lucy ::
  "backend \<Rightarrow> fl ndarray \<Rightarrow> fl ndarray \<Rightarrow> int \<Rightarrow> bool \<Rightarrow> int \<Rightarrow> (nat \<Rightarrow> fl list) option
    \<Rightarrow> error + fl ndarray option" where
  "richardson_lucy B img psf iterations clip prediction_order win_func =
     (if \<not> ndim psf = ndim img
      then Inl (AssertionError ''image and psf do not have the same number of dimensions'')
      else
        bind (rl_window img win_func) (\<lambda>window.
        bind (psf_normalize img psf) (\<lambda>psf_norm.
        bind (rl_otf B window psf_norm) (\<lambda>otf.
        bind (rl_loop B img otf prediction_order (nat iterations) 0 (rl_init img)) (\<lambda>st.
        if clip then bind (bound (u_t st)) (\<lambda>u. Inr (Some (rl_clip u)))
        else Inr (u_t st))))))"

text \<open>
  The unaccelerated (vanilla) Richardson-Lucy update as the specification states it, steps
  4a to 4e with the current estimate \<open>u\<close> in the place of the predicted image: reblur the
  estimate with the OTF, divide the image by the result, correlate the ratio with the OTF
  (multiply by its conjugate), multiply the estimate by this correction, and set negative
  values to zero. \<open>vanilla_loop\<close> applies the update \<open>n\<close> times. This is the reference C2
  compares the code with.
\<close>

definition vanilla_step ::
  "backend \<Rightarrow> fl ndarray \<Rightarrow> cfl ndarray \<Rightarrow> fl ndarray \<Rightarrow> error + fl ndarray" where
  "vanilla_step B img otf u =
     bind (urfftn B u) (\<lambda>fu.
     bind (binop cmul otf fu) (\<lambda>prod1.
     bind (uirfftn B prod1) (\<lambda>reblur.
     bind (binop (/) img reblur) (\<lambda>ratio.
     bind (urfftn B ratio) (\<lambda>fr.
     bind (binop cmul (map_array cconj otf) fr) (\<lambda>prod2.
     bind (uirfftn B prod2) (\<lambda>correction.
     bind (binop (*) u correction) (\<lambda>raw.
     Inr (map_array (\<lambda>v. if fl_lt v (Fin 0) then Fin 0 else v) raw)))))))))"

primrec vanilla_loop ::
  "backend \<Rightarrow> fl ndarray \<Rightarrow> cfl ndarray \<Rightarrow> nat \<Rightarrow> fl ndarray \<Rightarrow> error + fl ndarray" where
  "vanilla_loop B img otf 0 u = Inr u"
| "vanilla_loop B img otf (Suc n) u =
     bind (vanilla_step B img otf u) (\<lambda>u'. vanilla_loop B img otf n u')"

text \<open>
  The acceleration coefficient as a function of two residuals, in the words of the
  specification: the dot product of the flattened residuals \<open>g\<close> and \<open>g'\<close> divided by
  the dot product of \<open>g'\<close> with itself, then limited to \<open>[0, 1]\<close>. \<open>clamp_unit\<close> spells
  out what the limiting does with each kind of float.
\<close>

definition dot :: "fl list \<Rightarrow> fl list \<Rightarrow> fl" where
  "dot xs ys = fold (\<lambda>(x, y) acc. acc + x * y) (zip xs ys) (Fin 0)"

definition clamp_unit :: "fl \<Rightarrow> fl" where
  "clamp_unit a =
     (case a of Fin r \<Rightarrow> Fin (max 0 (min 1 r)) | PInf \<Rightarrow> Fin 1 | NInf \<Rightarrow> Fin 0 | NaN \<Rightarrow> Fin 0)"

definition alpha_of :: "fl ndarray \<Rightarrow> fl ndarray \<Rightarrow> fl" where
  "alpha_of g g' = clamp_unit (dot (flat g) (flat g') / dot (flat g') (flat g'))"

text \<open>
  What the statements about an impulse PSF need from the unitary transform pair, which is
  not among the source files: on arrays of shape \<open>s\<close> with finite values the forward
  transform succeeds, and the inverse transform of the spectrum multiplied by the real
  constant \<open>c\<close> is the array multiplied by \<open>c\<close> (the pair is an exact inverse pair and
  the inverse is linear); the spectrum of the unit impulse at the origin (\<open>unit_impulse s c\<close> is the array of
  shape \<open>s\<close> that is 1 at the index \<open>c\<close> and 0 elsewhere) is the constant \<open>c\<close>. For the unitary transform of \<open>N\<close> data points \<open>c\<close> is \<open>1 / sqrt N\<close>.
\<close>

definition unit_impulse :: "nat list \<Rightarrow> nat list \<Rightarrow> fl ndarray" where
  "unit_impulse s c = tabulate s (\<lambda>idx. if idx = c then Fin 1 else Fin 0)"

definition origin_impulse :: "nat list \<Rightarrow> fl ndarray" where
  "origin_impulse s = unit_impulse s (replicate (length s) 0)"

text \<open>
  The index of a PSF of shape \<open>sp\<close> that the padding to the shape \<open>s\<close> and the shift carry
  to the origin: along an axis of extents \<open>n\<close> and \<open>m\<close> the padding puts
  \<open>pad_before n m = (m - n) - (m - n) // 2\<close> cells before the PSF and the shift moves index \<open>m // 2\<close> to 0.
  This is the centre \<open>n // 2\<close> of the PSF, except for an even \<open>n\<close> with an odd \<open>m\<close>,
  where it is \<open>n // 2 - 1\<close>.
\<close>

definition centre_index :: "nat list \<Rightarrow> nat list \<Rightarrow> nat list" where
  "centre_index sp s = map (\<lambda>(n, m). m div 2 - pad_before n m) (zip sp s)"

definition exact_pair :: "backend \<Rightarrow> nat list \<Rightarrow> real \<Rightarrow> bool" where
  "exact_pair B s c =
     (c \<noteq> 0
      \<and> (\<exists>f0. urfftn B (origin_impulse s) = Inr f0 \<and> wf_array f0
            \<and> list_all (\<lambda>z. z = (Fin c, Fin 0)) (flat f0)
            \<and> (\<forall>y. shape y = s \<and> wf_array y \<and> list_all isfinite (flat y) \<longrightarrow>
                  (\<exists>fy. urfftn B y = Inr fy \<and> wf_array fy \<and> shape fy = shape f0
                     \<and> uirfftn B (map_array (cmul (Fin c, Fin 0)) fy)
                         = Inr (map_array (\<lambda>v. Fin c * v) y)))))"

section \<open>Radial profile\<close>

text \<open>
  \<^verbatim>\<open>np.sqrt\<close> on a float, and \<^verbatim>\<open>np.round\<close>, which rounds a half to the even neighbour
  and returns a float: \<^verbatim>\<open>nan\<close> and the infinities stay what they are.
\<close>

fun fl_sqrt :: "fl \<Rightarrow> fl" where
  "fl_sqrt (Fin a) = (if a < 0 then NaN else Fin (sqrt a))"
| "fl_sqrt PInf = PInf"
| "fl_sqrt NInf = NaN"
| "fl_sqrt NaN = NaN"

definition round_half_even :: "real \<Rightarrow> int" where
  "round_half_even x =
     (let f = \<lfloor>x\<rfloor>; d = x - of_int f
      in if d < 1 / 2 then f else if 1 / 2 < d then f + 1 else if even f then f else f + 1)"

definition np_round :: "fl \<Rightarrow> fl" where
  "np_round v = (case v of Fin r \<Rightarrow> Fin (of_int (round_half_even r)) | _ \<Rightarrow> v)"

text \<open>
  \<^verbatim>\<open>astype(np.int)\<close> casts a \<^verbatim>\<open>float64\<close> to a signed integer of 64 bits. A finite value
  is truncated towards zero; a value whose truncation does not fit, an infinity and
  \<^verbatim>\<open>nan\<close> give the most negative integer \<open>-2^63\<close> (the result of the conversion
  instruction of x86-64, with a warning at most).
\<close>

definition astype_int64 :: "fl \<Rightarrow> int" where
  "astype_int64 v =
     (case v of
        Fin r \<Rightarrow>
          (let t = (if 0 \<le> r then \<lfloor>r\<rfloor> else \<lceil>r\<rceil>)
           in if - (2 ^ 63) \<le> t \<and> t < 2 ^ 63 then t else - (2 ^ 63))
      | _ \<Rightarrow> - (2 ^ 63))"

text \<open>
  \<^verbatim>\<open>np.bincount(r, weights)\<close>: the result has \<open>max r + 1\<close> entries (none for an empty
  \<open>r\<close>), entry \<open>b\<close> being the sum of the weights whose bin number is \<open>b\<close>; without
  weights it counts. A negative bin number is a \<^verbatim>\<open>ValueError\<close>, checked by the caller below.
\<close>

definition bin_count :: "int list \<Rightarrow> nat" where
  "bin_count rs = (if rs = [] then 0 else nat (fold max rs 0 + 1))"

definition bin_members :: "int list \<Rightarrow> 'a list \<Rightarrow> nat \<Rightarrow> 'a list" where
  "bin_members rs ws b = map snd (filter (\<lambda>(r, w). r = int b) (zip rs ws))"

definition bincount_weights :: "int list \<Rightarrow> fl list \<Rightarrow> fl list" where
  "bincount_weights rs ws =
     map (\<lambda>b. fold (\<lambda>v acc. acc + v) (bin_members rs ws b) (Fin 0)) [0..<bin_count rs]"

definition bincount :: "int list \<Rightarrow> nat list" where
  "bincount rs = map (\<lambda>b. length (filter (\<lambda>r. r = int b) rs)) [0..<bin_count rs]"

text \<open>
  The bin number of every pixel of an \<open>h\<close> by \<open>w\<close> array, in row-major order:
  \<^verbatim>\<open>
  y, x = np.indices((data.shape))
  if center is None:
      center = np.array(data.shape) / 2
  y0, x0 = center
  r = np.sqrt((x - x0)**2 + (y - y0)**2)
  r = np.round(r / binsize).astype(np.int)
  \<close>
  The centre is a pair of floats, which can be infinite or \<^verbatim>\<open>nan\<close>, and so is the bin
  size; \<open>/\<close> is Python 3's true division. The pixel indices are exact as floats, and
  every operation on them can overflow. A centre of Python integers, with which NumPy
  computes the differences and the squares in 64-bit integers, is not modelled.
\<close>

definition radial_bins :: "nat \<Rightarrow> nat \<Rightarrow> (fl \<times> fl) option \<Rightarrow> fl \<Rightarrow> int list" where
  "radial_bins h w center binsize =
     (let c = (case center of
                 None \<Rightarrow> (Fin (real h) / Fin 2, Fin (real w) / Fin 2)
               | Some p \<Rightarrow> p);
          y0 = fst c; x0 = snd c
      in map (\<lambda>idx. let dx = overflow (Fin (real (idx ! 1)) - x0);
                        dy = overflow (Fin (real (idx ! 0)) - y0);
                        r = fl_sqrt (overflow (overflow (dx * dx) + overflow (dy * dy)))
                    in astype_int64 (np_round (overflow (r / binsize))))
           (indices [h, w]))"

text \<open>
  \<^verbatim>\<open>
  def radial_profile(data, center=None, binsize=1.0):
      ...
      tbin = np.bincount(r.ravel(), data.ravel())
      tbin2 = np.bincount(r.ravel(), (data**2).ravel())
      nr = np.bincount(r.ravel())
      radial_mean = tbin / nr
      radial_std = np.sqrt(tbin2 / nr - radial_mean**2)
      return radial_mean, radial_std
  \<close>
  for real data (the complex case calls the function on the real and the imaginary part).
  Unpacking \<^verbatim>\<open>np.indices\<close> into \<open>y, x\<close> needs a two-dimensional array. The first
  \<^verbatim>\<open>np.bincount\<close> rejects a negative bin number, which is what the cast makes of a radius
  that is \<^verbatim>\<open>nan\<close>, infinite or too large: a zero bin size, for one, divides every radius by
  zero. The two results are one-dimensional arrays, given by their elements.
\<close>

definition radial_profile ::
  "fl ndarray \<Rightarrow> (fl \<times> fl) option \<Rightarrow> fl \<Rightarrow> error + (fl list \<times> fl list)" where
  "radial_profile arr center binsize =
     (case shape arr of
        [h, w] \<Rightarrow>
          (let r = radial_bins h w center binsize
           in if list_ex (\<lambda>b. b < 0) r
              then Inl (ValueError ''list argument must have no negative elements'')
              else
                (let tbin = bincount_weights r (flat arr);
                     tbin2 = bincount_weights r (map (\<lambda>v. v * v) (flat arr));
                     nr = bincount r;
                     radial_mean = map (\<lambda>(t, n). t / Fin (real n)) (zip tbin nr);
                     radial_std = map (\<lambda>((t2, n), m). fl_sqrt (t2 / Fin (real n) - m * m))
                                    (zip (zip tbin2 nr) radial_mean)
                 in Inr (radial_mean, radial_std)))
      | _ \<Rightarrow> Inl (ValueError ''wrong number of values to unpack''))"

section \<open>Multi-indices and elements\<close>

lemma length_indices: "length (indices s) = prod_list s"
proof (induction s)
  case Nil
  then show ?case by simp
next
  case (Cons n ns)
  have "length (indices (n # ns)) = (\<Sum>i\<leftarrow>[0..<n]. prod_list ns)"
    by (simp add: length_concat comp_def Cons.IH)
  also have "\<dots> = n * prod_list ns"
    by (simp add: sum_list_triv)
  finally show ?case by simp
qed

lemma set_indices:
  "set (indices s) = {idx. list_all2 (<) idx s}"
proof (induction s)
  case Nil
  then show ?case by auto
next
  case (Cons n ns)
  show ?case
  proof (rule set_eqI)
    fix idx
    show "idx \<in> set (indices (n # ns)) \<longleftrightarrow> idx \<in> {idx. list_all2 (<) idx (n # ns)}"
      using Cons.IH by (cases idx) auto
  qed
qed

lemma offset_less:
  "list_all2 (<) idx s \<Longrightarrow> offset s idx < prod_list s"
proof (induction s arbitrary: idx)
  case Nil
  then show ?case by simp
next
  case (Cons n ns)
  then obtain i "is" where idx: "idx = i # is" "i < n" "list_all2 (<) is ns"
    by (cases idx) auto
  have "offset ns is < prod_list ns" using Cons.IH idx(3) by simp
  then have "i * prod_list ns + offset ns is < (i + 1) * prod_list ns" by simp
  also have "\<dots> \<le> n * prod_list ns" using idx(2) by (intro mult_le_mono1) simp
  finally show ?case using idx(1) by simp
qed

lemma concat_chunks:
  "length xs = n * p \<Longrightarrow> concat (map (\<lambda>i. take p (drop (i * p) xs)) [0..<n]) = xs"
proof (induction n arbitrary: xs)
  case 0
  then show ?case by simp
next
  case (Suc n)
  have len: "length (take (n * p) xs) = n * p" using Suc.prems by simp
  have "concat (map (\<lambda>i. take p (drop (i * p) xs)) [0..<n])
      = concat (map (\<lambda>i. take p (drop (i * p) (take (n * p) xs))) [0..<n])"
  proof (rule arg_cong [where f = concat], rule map_cong [OF refl])
    fix i assume "i \<in> set [0..<n]"
    then have "i < n" by simp
    then have "i * p + p \<le> n * p"
      by (metis Suc_leI add.commute mult_Suc mult_le_mono1)
    then show "take p (drop (i * p) xs) = take p (drop (i * p) (take (n * p) xs))"
      by (simp add: drop_take)
  qed
  also have "\<dots> = take (n * p) xs" using Suc.IH [OF len] .
  finally have "concat (map (\<lambda>i. take p (drop (i * p) xs)) [0..<Suc n])
      = take (n * p) xs @ take p (drop (n * p) xs)" by simp
  also have "\<dots> = xs" using Suc.prems by simp
  finally show ?case .
qed

lemma map_item_indices:
  "length xs = prod_list s \<Longrightarrow> map (\<lambda>idx. xs ! offset s idx) (indices s) = xs"
proof (induction s arbitrary: xs)
  case Nil
  then show ?case by (cases xs) auto
next
  case (Cons n ns)
  let ?p = "prod_list ns"
  have chunk: "map (\<lambda>is. xs ! (i * ?p + offset ns is)) (indices ns) = take ?p (drop (i * ?p) xs)"
    if "i < n" for i
  proof -
    let ?c = "take ?p (drop (i * ?p) xs)"
    have "i * ?p + ?p \<le> n * ?p" using that
      by (metis Suc_leI add.commute mult_Suc mult_le_mono1)
    then have len: "length ?c = ?p" using Cons.prems by simp
    have "map (\<lambda>is. xs ! (i * ?p + offset ns is)) (indices ns)
        = map (\<lambda>is. ?c ! offset ns is) (indices ns)"
    proof (rule map_cong [OF refl])
      fix "is" assume "is \<in> set (indices ns)"
      then have "offset ns is < ?p" by (simp add: set_indices offset_less)
      then show "xs ! (i * ?p + offset ns is) = ?c ! offset ns is"
        using len by simp
    qed
    also have "\<dots> = ?c" using Cons.IH [OF len] .
    finally show ?thesis .
  qed
  have "map (\<lambda>idx. xs ! offset (n # ns) idx) (indices (n # ns))
      = concat (map (\<lambda>i. map (\<lambda>is. xs ! (i * ?p + offset ns is)) (indices ns)) [0..<n])"
    by (simp add: map_concat comp_def)
  also have "\<dots> = concat (map (\<lambda>i. take ?p (drop (i * ?p) xs)) [0..<n])"
    by (rule arg_cong [where f = concat], rule map_cong [OF refl]) (simp add: chunk)
  also have "\<dots> = xs" using Cons.prems by (intro concat_chunks) simp
  finally show ?case .
qed

lemma flat_items: "wf_array a \<Longrightarrow> flat a = map (item a) (indices (shape a))"
  unfolding wf_array_def item_def using map_item_indices [of "flat a" "shape a"] by simp

lemma item_tabulate:
  assumes "list_all2 (<) idx s"
  shows "item (tabulate s f) idx = f idx"
proof -
  let ?xs = "map f (indices s)"
  have len: "length ?xs = prod_list s" by (simp add: length_indices)
  have eq: "map (\<lambda>j. ?xs ! offset s j) (indices s) = map f (indices s)"
    using map_item_indices [OF len] .
  have "idx \<in> set (indices s)" using assms by (simp add: set_indices)
  then have "?xs ! offset s idx = f idx"
    using eq by (metis (mono_tags, lifting) map_eq_conv)
  then show ?thesis by (simp add: item_def tabulate_def)
qed

lemma offset_indices: "map (offset s) (indices s) = [0..<prod_list s]"
proof -
  have "map (\<lambda>idx. [0..<prod_list s] ! offset s idx) (indices s) = [0..<prod_list s]"
    by (rule map_item_indices) simp
  moreover have "map (\<lambda>idx. [0..<prod_list s] ! offset s idx) (indices s) = map (offset s) (indices s)"
    by (rule map_cong [OF refl]) (simp add: set_indices offset_less)
  ultimately show ?thesis by simp
qed

lemma distinct_indices: "distinct (indices s)"
proof -
  have "distinct (map (offset s) (indices s))" by (simp add: offset_indices)
  then show ?thesis by (rule distinct_map [THEN iffD1, THEN conjunct1])
qed

section \<open>Reductions and rescaling of finite values\<close>

lemma finite_list_reals: "list_all isfinite xs \<Longrightarrow> \<exists>rs. xs = map Fin rs"
proof (induction xs)
  case Nil
  then show ?case by simp
next
  case (Cons x xs)
  then obtain rs where "xs = map Fin rs" by auto
  moreover from Cons.prems obtain r where "x = Fin r" by (cases x) auto
  ultimately have "x # xs = map Fin (r # rs)" by simp
  then show ?case by (rule exI [of _ "r # rs"])
qed

lemma fold_fmin_Fin:
  "fold (\<lambda>v acc. fl_fmin acc v) (map Fin rs) (Fin r) = Fin (fold min rs r)"
  by (induction rs arbitrary: r) (auto simp: fl_fmin_def min_def)

lemma fold_fmax_Fin:
  "fold (\<lambda>v acc. fl_fmax acc v) (map Fin rs) (Fin r) = Fin (fold max rs r)"
  by (induction rs arbitrary: r) (auto simp: fl_fmax_def max_def)

lemma fold_minimum_Fin:
  "fold (\<lambda>v acc. fl_minimum acc v) (map Fin rs) (Fin r) = Fin (fold min rs r)"
  by (induction rs arbitrary: r) (auto simp: fl_minimum_def min_def)

lemma fold_maximum_Fin:
  "fold (\<lambda>v acc. fl_maximum acc v) (map Fin rs) (Fin r) = Fin (fold max rs r)"
  by (induction rs arbitrary: r) (auto simp: fl_maximum_def max_def)

lemma fold_min_Min: "fold min xs (x::real) = Min (set (x # xs))"
  by (simp only: Min.set_eq_fold)

lemma fold_max_Max: "fold max xs (x::real) = Max (set (x # xs))"
  by (simp only: Max.set_eq_fold)

lemma reduce_fmin_Fin:
  "rs \<noteq> [] \<Longrightarrow> nanmin \<lparr>shape = s, flat = map Fin rs\<rparr> = Inr (Fin (Min (set rs)))"
  by (cases rs) (simp_all add: nanmin_def reduce_def fold_fmin_Fin fold_min_Min)

lemma reduce_fmax_Fin:
  "rs \<noteq> [] \<Longrightarrow> nanmax \<lparr>shape = s, flat = map Fin rs\<rparr> = Inr (Fin (Max (set rs)))"
  by (cases rs) (simp_all add: nanmax_def reduce_def fold_fmax_Fin fold_max_Max)

lemma amin_Fin:
  "rs \<noteq> [] \<Longrightarrow> amin \<lparr>shape = s, flat = map Fin rs\<rparr> = Inr (Fin (Min (set rs)))"
  by (cases rs) (simp_all add: amin_def reduce_def fold_minimum_Fin fold_min_Min)

lemma amax_Fin:
  "rs \<noteq> [] \<Longrightarrow> amax \<lparr>shape = s, flat = map Fin rs\<rparr> = Inr (Fin (Max (set rs)))"
  by (cases rs) (simp_all add: amax_def reduce_def fold_maximum_Fin fold_max_Max)

lemma overflow_bound_large: "2 ^ 1023 < overflow_bound"
proof -
  have "(2::real) ^ 970 < 2 ^ 1023" by (rule power_strict_increasing) simp_all
  moreover have "(2::real) ^ 1024 = 2 * 2 ^ 1023" by (simp only: power_Suc [symmetric]) simp
  ultimately show ?thesis by (simp add: overflow_bound_def)
qed

lemma overflow_Fin:
  "- overflow_bound < r \<Longrightarrow> r < overflow_bound \<Longrightarrow> overflow (Fin r) = Fin r"
  by (simp add: overflow_def)

lemma overflow_small: "\<bar>r\<bar> \<le> 2 ^ 1023 \<Longrightarrow> overflow (Fin r) = Fin r"
  using overflow_bound_large by (intro overflow_Fin) linarith+

lemma overflow_special [simp]:
  "overflow NaN = NaN" "overflow PInf = PInf" "overflow NInf = NInf"
  by (simp_all add: overflow_def)

lemma overflow_finite:
  "isfinite (overflow (Fin a - Fin b)) \<longleftrightarrow> - overflow_bound < a - b \<and> a - b < overflow_bound"
  by (auto simp: overflow_def minus_fl_def)

lemma range_no_overflow:
  assumes "\<forall>x \<in> set (map Fin rs). \<forall>y \<in> set (map Fin rs). isfinite (overflow (x - y))"
    and "rs \<noteq> []"
  shows "Max (set rs) - Min (set rs) < overflow_bound"
proof -
  have "Max (set rs) \<in> set rs" "Min (set rs) \<in> set rs" using assms(2) by simp_all
  then have "isfinite (overflow (Fin (Max (set rs)) - Fin (Min (set rs))))"
    using assms(1) by simp
  then show ?thesis by (simp add: overflow_finite)
qed

lemma scale_elem:
  assumes "mn < mx" and "mx - mn < overflow_bound" and "mn \<le> r" and "r \<le> mx"
  shows "overflow (overflow (overflow (overflow (Fin r - Fin mn) / overflow (Fin mx - Fin mn))
            * overflow (Fin 1 - Fin 0)) + Fin 0)
    = Fin ((r - mn) / (mx - mn))"
proof -
  have big: "1 < overflow_bound" using overflow_bound_large by (simp add: less_trans [of 1 "2 ^ 1023"])
  have 1: "overflow (Fin r - Fin mn) = Fin (r - mn)"
    using assms by (simp add: minus_fl_def overflow_Fin)
  have 2: "overflow (Fin mx - Fin mn) = Fin (mx - mn)"
    using assms by (simp add: minus_fl_def overflow_Fin)
  have q: "0 \<le> (r - mn) / (mx - mn)" "(r - mn) / (mx - mn) \<le> 1"
    using assms by simp_all
  have 3: "overflow (Fin ((r - mn) / (mx - mn))) = Fin ((r - mn) / (mx - mn))"
    using q big by (intro overflow_Fin) linarith+
  have 4: "overflow (Fin 1 - Fin 0) = Fin 1"
    using big by (simp add: minus_fl_def overflow_Fin)
  show ?thesis using assms(1) by (simp add: 1 2 3 4)
qed

lemma scale_Fin:
  assumes "rs \<noteq> []" and "Min (set rs) \<noteq> Max (set rs)"
    and "Max (set rs) - Min (set rs) < overflow_bound"
  shows "scale \<lparr>shape = s, flat = map Fin rs\<rparr> =
    Inr \<lparr>shape = s, flat = map (\<lambda>r. Fin ((r - Min (set rs)) / (Max (set rs) - Min (set rs)))) rs\<rparr>"
proof -
  let ?mn = "Min (set rs)" and ?mx = "Max (set rs)"
  have lt: "?mn < ?mx"
    using assms(1,2) by (metis List.finite_set Max_ge Min_in le_less set_empty)
  have "map (\<lambda>r. overflow (overflow (overflow (overflow (Fin r - Fin ?mn)
                / overflow (Fin ?mx - Fin ?mn)) * overflow (Fin 1 - Fin 0)) + Fin 0)) rs
      = map (\<lambda>r. Fin ((r - ?mn) / (?mx - ?mn))) rs"
    using lt assms(3) by (intro map_cong [OF refl] scale_elem) simp_all
  then show ?thesis
    using assms(1)
    by (simp add: scale_def reduce_fmin_Fin reduce_fmax_Fin map_array_def Let_def comp_def)
qed

section \<open>Sequencing and elementwise operations\<close>

lemma bind_Inr_iff: "bind m f = Inr r \<longleftrightarrow> (\<exists>v. m = Inr v \<and> f v = Inr r)"
  by (cases m) (simp_all add: bind_def)

lemma bind_Inr [simp]: "bind (Inr v) f = f v"
  by (simp add: bind_def)

lemma bind_Inl [simp]: "bind (Inl e) f = Inl e"
  by (simp add: bind_def)

lemma broadcast_shape_same: "broadcast_shape s s = Inr s"
proof -
  have "list_all (\<lambda>(m, n). m = n \<or> m = 1 \<or> n = 1) (zip s s)"
    by (auto simp: list_all_iff zip_same)
  moreover have "map (\<lambda>(m, n). if m = 1 then n else m) (zip s s) = s"
    by (simp add: zip_same_conv_map comp_def)
  ultimately show ?thesis by (simp add: broadcast_shape_def)
qed

lemma bitem_same:
  assumes "list_all2 (<) idx (shape a)"
  shows "bitem a idx = item a idx"
proof -
  have len: "length idx = length (shape a)" using assms by (rule list_all2_lengthD)
  have "map (\<lambda>(i, n). if n = 1 then 0 else i) (zip idx (shape a)) = idx"
    using assms
  proof (induction idx "shape a" arbitrary: a rule: list_all2_induct)
    case Nil
    then show ?case by simp
  next
    case (Cons i "is" n ns)
    have "map (\<lambda>(i, n). if n = 1 then 0 else i) (zip is ns) = is"
      using Cons(3) [of "\<lparr>shape = ns, flat = []\<rparr>"] by simp
    moreover have "(if n = 1 then 0 else i) = i" using Cons(1) by auto
    ultimately show ?case using Cons(4) [symmetric] by simp
  qed
  then show ?thesis using len by (simp add: bitem_def ndim_def)
qed

lemma wf_tabulate: "wf_array (tabulate s f)"
  by (simp add: wf_array_def tabulate_def length_indices)

lemma binop_same_shape:
  assumes "shape a = shape b" and "wf_array a" and "wf_array b"
  shows "binop f a b = Inr \<lparr>shape = shape a, flat = map (\<lambda>(x, y). f x y) (zip (flat a) (flat b))\<rparr>"
proof -
  let ?s = "shape a"
  have "map (\<lambda>idx. f (bitem a idx) (bitem b idx)) (indices ?s)
      = map (\<lambda>idx. f (item a idx) (item b idx)) (indices ?s)"
    using assms(1) by (intro map_cong [OF refl]) (simp add: set_indices bitem_same)
  also have "\<dots> = map (\<lambda>(x, y). f x y) (zip (map (item a) (indices ?s)) (map (item b) (indices ?s)))"
    by (simp add: zip_map_map zip_same_conv_map comp_def)
  also have "\<dots> = map (\<lambda>(x, y). f x y) (zip (flat a) (flat b))"
    using flat_items [OF assms(2)] flat_items [OF assms(3)] assms(1) by simp
  finally show ?thesis
    using assms(1) by (simp add: binop_def broadcast_shape_same tabulate_def)
qed

lemma wf_binop: "binop f a b = Inr c \<Longrightarrow> wf_array c"
  by (auto simp: binop_def bind_Inr_iff wf_tabulate)

lemma wf_map_array [simp]: "wf_array (map_array f a) = wf_array a"
  by (simp add: wf_array_def map_array_def)

lemma shape_map_array [simp]: "shape (map_array f a) = shape a"
  by (simp add: map_array_def)

lemma flat_map_array [simp]: "flat (map_array f a) = map f (flat a)"
  by (simp add: map_array_def)

lemma binop_shape:
  assumes "shape a = shape b"
  shows "\<exists>c. binop f a b = Inr c \<and> shape c = shape a \<and> wf_array c"
proof -
  have "binop f a b = Inr (tabulate (shape a) (\<lambda>idx. f (bitem a idx) (bitem b idx)))"
    using assms by (simp add: binop_def broadcast_shape_same)
  then show ?thesis by (simp add: wf_tabulate) (simp add: tabulate_def)
qed

section \<open>Pad widths and padded arrays\<close>

lemma calc_pad_pair: "calc_pad oldnum newnum =
    ((newnum - oldnum) - (newnum - oldnum) div 2, (newnum - oldnum) div 2)"
  by (simp add: calc_pad_def Let_def)

lemma calc_pad_nat:
  "n \<le> m \<Longrightarrow> calc_pad (int n) (int m) = (int (pad_before n m), int ((m - n) div 2))"
  by (simp add: calc_pad_pair pad_before_def of_nat_diff zdiv_int)

lemma pad_before_sum: "n \<le> m \<Longrightarrow> pad_before n m + n + (m - n) div 2 = m"
  by (simp add: pad_before_def)

lemma fft_pad_padding:
  assumes "list_all2 (\<le>) sp s" and "shape a = sp"
  shows "fft_pad a (PadSeq (map (\<lambda>n. Some (int n)) s)) mode
    = np_pad a (map (\<lambda>(b, e). (int b, int e)) (pad_amounts sp s)) mode"
proof -
  have "map (\<lambda>(old, n). case n of Some new \<Rightarrow> calc_pad old new | None \<Rightarrow> calc_pad old old)
          (zip (map int sp) (map (\<lambda>n. Some (int n)) s))
      = map (\<lambda>(b, e). (int b, int e)) (pad_amounts sp s)"
    using assms(1)
    by (induction sp s rule: list_all2_induct) (simp_all add: pad_amounts_def calc_pad_nat)
  then show ?thesis by (simp add: fft_pad_def assms(2) Let_def)
qed

lemma length_pad_amounts: "length sp = length s \<Longrightarrow> length (pad_amounts sp s) = length sp"
  by (simp add: pad_amounts_def)

lemma np_pad_nat:
  assumes "length pads = ndim a" and "ndim a \<noteq> 0"
  shows "np_pad a (map (\<lambda>(b, e). (int b, int e)) pads) Constant = Inr (pad_constant pads a)"
proof -
  have neg: "\<not> list_ex (\<lambda>(b, e). b < 0 \<or> e < 0) (map (\<lambda>(b, e). (int b, int e)) pads)"
    by (auto simp: list_ex_iff)
  have nat: "map (\<lambda>(b, e). (nat b, nat e)) (map (\<lambda>(b, e). (int b, int e)) pads) = pads"
    by (induction pads) auto
  have "np_pad a (map (\<lambda>(b, e). (int b, int e)) pads) Constant
      = Inr (pad_constant (map (\<lambda>(b, e). (nat b, nat e)) (map (\<lambda>(b, e). (int b, int e)) pads)) a)"
  proof -
    have "pads \<noteq> []" using assms by auto
    then show ?thesis using assms neg by (simp add: np_pad_def Let_def del: map_map)
  qed
  then show ?thesis by (simp only: nat)
qed

lemma padded_shape_amounts:
  "list_all2 (\<le>) sp s \<Longrightarrow> padded_shape sp (pad_amounts sp s) = s"
  by (induction sp s rule: list_all2_induct)
    (simp_all add: padded_shape_def pad_amounts_def pad_before_sum)

lemma fft_pad_constant:
  assumes "list_all2 (\<le>) sp s" and "shape a = sp" and "sp \<noteq> []"
  shows "fft_pad a (PadSeq (map (\<lambda>n. Some (int n)) s)) Constant
    = Inr (pad_constant (pad_amounts sp s) a)"
proof -
  have len: "length sp = length s" using assms(1) by (rule list_all2_lengthD)
  have "length (pad_amounts sp s) = ndim a" "ndim a \<noteq> 0"
    using assms len by (auto simp: length_pad_amounts ndim_def)
  then have "np_pad a (map (\<lambda>(b, e). (int b, int e)) (pad_amounts sp s)) Constant
      = Inr (pad_constant (pad_amounts sp s) a)"
    by (rule np_pad_nat)
  then show ?thesis
    by (simp only: fft_pad_padding [OF assms(1,2)])
qed

lemma inside_nth:
  assumes "length idx = length bs" and "length bs = length ns"
  shows "inside bs ns idx \<longleftrightarrow> (\<forall>j < length idx. bs ! j \<le> idx ! j \<and> idx ! j < bs ! j + ns ! j)"
  using assms by (auto simp: inside_def list_all_length)

lemma pad_constant_unit_impulse:
  assumes c: "list_all2 (<) c sp" and len: "length pads = length sp"
  shows "pad_constant pads (unit_impulse sp c)
    = unit_impulse (padded_shape sp pads) (map (\<lambda>(i, b). i + b) (zip c (map fst pads)))"
proof -
  let ?bs = "map fst pads"
  let ?s = "padded_shape sp pads"
  let ?c' = "map (\<lambda>(i, b). i + b) (zip c ?bs)"
  have lc: "length c = length sp" using c by (rule list_all2_lengthD)
  have cn: "\<And>j. j < length sp \<Longrightarrow> c ! j < sp ! j" using c by (simp add: list_all2_conv_all_nth)
  have shp: "shape (unit_impulse sp c) = sp" by (simp add: unit_impulse_def tabulate_def)
  have ls: "length ?s = length sp" using len by (simp add: padded_shape_def)
  have "(if inside ?bs sp idx
           then item (unit_impulse sp c) (map (\<lambda>(i, b). i - b) (zip idx ?bs)) else Fin 0)
      = (if idx = ?c' then Fin 1 else Fin 0)" if "idx \<in> set (indices ?s)" for idx
  proof -
    have li: "length idx = length sp"
      using that ls by (auto simp: set_indices dest: list_all2_lengthD)
    show ?thesis
    proof (cases "inside ?bs sp idx")
      case True
      then have ins: "\<And>j. j < length sp \<Longrightarrow> ?bs ! j \<le> idx ! j \<and> idx ! j < ?bs ! j + sp ! j"
        using li len by (simp add: inside_nth)
      let ?d = "map (\<lambda>(i, b). i - b) (zip idx ?bs)"
      have "list_all2 (<) ?d sp"
        unfolding list_all2_conv_all_nth
      proof (intro conjI allI impI)
        show "length ?d = length sp" using li len by simp
        fix j assume "j < length ?d"
        then have j: "j < length sp" using li len by simp
        then have "?d ! j = idx ! j - ?bs ! j" using li len by simp
        then show "?d ! j < sp ! j" using ins [OF j] by linarith
      qed
      then have "item (unit_impulse sp c) ?d = (if ?d = c then Fin 1 else Fin 0)"
        by (simp add: unit_impulse_def item_tabulate)
      moreover have "?d = c \<longleftrightarrow> idx = ?c'"
      proof
        assume "?d = c"
        then have "\<And>j. j < length sp \<Longrightarrow> idx ! j - ?bs ! j = c ! j"
          using li len by (metis (no_types, lifting) length_map length_zip min.idem nth_map nth_zip
              old.prod.case)
        then have "\<And>j. j < length sp \<Longrightarrow> idx ! j = c ! j + ?bs ! j"
          using ins by (metis le_add_diff_inverse2)
        then show "idx = ?c'"
          using li len lc by (intro nth_equalityI) auto
      next
        assume "idx = ?c'"
        then have "\<And>j. j < length sp \<Longrightarrow> idx ! j = c ! j + ?bs ! j"
          using len lc by simp
        then show "?d = c"
          using li len lc by (intro nth_equalityI) auto
      qed
      ultimately show ?thesis using True by simp
    next
      case False
      then obtain j where j: "j < length sp" "\<not> (?bs ! j \<le> idx ! j \<and> idx ! j < ?bs ! j + sp ! j)"
        using li len by (auto simp: inside_nth)
      have "?c' ! j = c ! j + ?bs ! j" using j(1) len lc by simp
      then have "idx \<noteq> ?c'" using j cn [OF j(1)] by auto
      then show ?thesis using False by simp
    qed
  qed
  then show ?thesis
    by (simp add: pad_constant_def unit_impulse_def [of ?s] tabulate_def shp)
qed

section \<open>Padding and normalising scaled values\<close>

lemma scale_unit_range:
  assumes fin: "list_all isfinite (flat A)"
    and two: "\<exists>x \<in> set (flat A). \<exists>y \<in> set (flat A). x \<noteq> y"
    and rng: "\<forall>x \<in> set (flat A). \<forall>y \<in> set (flat A). isfinite (overflow (x - y))"
  shows "\<exists>qs. scale A = Inr \<lparr>shape = shape A, flat = map Fin qs\<rparr> \<and> length qs = length (flat A)
    \<and> (\<forall>q \<in> set qs. 0 \<le> q \<and> q \<le> 1) \<and> 1 \<in> set qs \<and> 0 \<in> set qs"
proof -
  obtain rs where rs: "flat A = map Fin rs" using finite_list_reals [OF fin] by blast
  have A: "A = \<lparr>shape = shape A, flat = map Fin rs\<rparr>" using rs by (cases A) simp
  from two rs obtain p q where pq: "p \<in> set rs" "q \<in> set rs" "p \<noteq> q" by auto
  then have ne: "rs \<noteq> []" by auto
  define mn where "mn = Min (set rs)"
  define mx where "mx = Max (set rs)"
  have mn_le: "\<And>r. r \<in> set rs \<Longrightarrow> mn \<le> r" by (simp add: mn_def)
  have le_mx: "\<And>r. r \<in> set rs \<Longrightarrow> r \<le> mx" by (simp add: mx_def)
  have mn_in: "mn \<in> set rs" unfolding mn_def using ne by (simp add: Min_in)
  have mx_in: "mx \<in> set rs" unfolding mx_def using ne by (simp add: Max_in)
  have lt: "mn < mx"
  proof (rule ccontr)
    assume "\<not> mn < mx"
    then have "mx \<le> mn" by simp
    then have "p = q" using mn_le [OF pq(1)] mn_le [OF pq(2)] le_mx [OF pq(1)] le_mx [OF pq(2)]
      by linarith
    then show False using pq(3) by simp
  qed
  have no: "Max (set rs) - Min (set rs) < overflow_bound"
    using rng ne unfolding rs by (rule range_no_overflow)
  define g where "g = (\<lambda>r. (r - mn) / (mx - mn))"
  have sc: "scale A = Inr \<lparr>shape = shape A, flat = map Fin (map g rs)\<rparr>"
    using scale_Fin [OF ne _ no, of "shape A"] lt A
    by (simp add: g_def mn_def mx_def comp_def)
  have g0: "\<And>r. r \<in> set rs \<Longrightarrow> 0 \<le> g r" using mn_le lt by (simp add: g_def)
  have g1: "\<And>r. r \<in> set rs \<Longrightarrow> g r \<le> 1" using le_mx lt by (simp add: g_def)
  have "g mx = 1" using lt by (simp add: g_def)
  then have one: "1 \<in> set (map g rs)" using mx_in by force
  have "g mn = 0" by (simp add: g_def)
  then have zero: "0 \<in> set (map g rs)" using mn_in by force
  show ?thesis
    using sc g0 g1 one zero rs by (intro exI [of _ "map g rs"]) auto
qed

lemma np_sum_Fin: "np_sum \<lparr>shape = s, flat = map Fin qs\<rparr> = Fin (sum_list qs)"
proof -
  have "fold (\<lambda>v acc. acc + v) (map Fin qs) (Fin a) = Fin (a + sum_list qs)" for a
    by (induction qs arbitrary: a) (simp_all add: add.assoc)
  from this [of 0] show ?thesis by (simp add: np_sum_def)
qed

lemma sum_list_div: "sum_list (map (\<lambda>q. q / s) qs) = sum_list qs / (s::real)"
  by (induction qs) (simp_all add: add_divide_distrib)

lemma normalise_sum:
  assumes "\<forall>q \<in> set qs. 0 \<le> q" and "1 \<in> set qs"
  shows "map_array (\<lambda>v. v / np_sum \<lparr>shape = s, flat = map Fin qs\<rparr>) \<lparr>shape = s, flat = map Fin qs\<rparr>
      = \<lparr>shape = s, flat = map Fin (map (\<lambda>q. q / sum_list qs) qs)\<rparr>"
    and "np_sum \<lparr>shape = s, flat = map Fin (map (\<lambda>q. q / sum_list qs) qs)\<rparr> = Fin 1"
proof -
  have "sum_list qs \<ge> 1"
  proof -
    from assms(2) obtain xs ys where sp: "qs = xs @ 1 # ys" by (meson split_list)
    have "0 \<le> sum_list xs" "0 \<le> sum_list ys"
      using assms(1) sp by (auto intro!: sum_list_nonneg)
    then show ?thesis using sp by simp
  qed
  then have nz: "sum_list qs \<noteq> 0" by simp
  show "map_array (\<lambda>v. v / np_sum \<lparr>shape = s, flat = map Fin qs\<rparr>) \<lparr>shape = s, flat = map Fin qs\<rparr>
      = \<lparr>shape = s, flat = map Fin (map (\<lambda>q. q / sum_list qs) qs)\<rparr>"
    using nz by (simp add: np_sum_Fin map_array_def)
  show "np_sum \<lparr>shape = s, flat = map Fin (map (\<lambda>q. q / sum_list qs) qs)\<rparr> = Fin 1"
    using nz by (simp only: np_sum_Fin sum_list_div) simp
qed

lemma shifted_index:
  assumes j: "list_all2 (<) j sp" and le: "list_all2 (\<le>) sp s"
  defines "bs \<equiv> map fst (pad_amounts sp s)"
  defines "idx \<equiv> map (\<lambda>(i, b). i + b) (zip j bs)"
  shows "list_all2 (<) idx s" and "inside bs sp idx"
    and "map (\<lambda>(i, b). i - b) (zip idx bs) = j"
proof -
  have l1: "length j = length sp" using j by (rule list_all2_lengthD)
  have l2: "length sp = length s" using le by (rule list_all2_lengthD)
  have lb: "length bs = length sp" using l2 by (simp add: bs_def pad_amounts_def)
  have li: "length idx = length sp" using l1 lb by (simp add: idx_def)
  have jn: "\<And>k. k < length sp \<Longrightarrow> j ! k < sp ! k"
    using j by (simp add: list_all2_conv_all_nth)
  have sn: "\<And>k. k < length sp \<Longrightarrow> sp ! k \<le> s ! k"
    using le by (simp add: list_all2_conv_all_nth)
  have bn: "\<And>k. k < length sp \<Longrightarrow> bs ! k = pad_before (sp ! k) (s ! k)"
    using l2 by (simp add: bs_def pad_amounts_def)
  have ik: "\<And>k. k < length sp \<Longrightarrow> idx ! k = j ! k + bs ! k"
    using l1 lb by (simp add: idx_def)
  have room: "bs ! k + sp ! k \<le> s ! k" if "k < length sp" for k
    using pad_before_sum [OF sn [OF that]] bn [OF that] by linarith
  show "list_all2 (<) idx s"
    unfolding list_all2_conv_all_nth
  proof (intro conjI allI impI)
    show "length idx = length s" using li l2 by simp
    fix k assume "k < length idx"
    then have k: "k < length sp" using li by simp
    show "idx ! k < s ! k" using ik [OF k] jn [OF k] room [OF k] by linarith
  qed
  show "inside bs sp idx"
    using li lb ik jn by (simp add: inside_nth)
  show "map (\<lambda>(i, b). i - b) (zip idx bs) = j"
    using li lb l1 ik by (intro nth_equalityI) auto
qed

lemma pad_constant_Fin:
  assumes wf: "length qs = prod_list sp" and le: "list_all2 (\<le>) sp s"
    and range: "\<forall>q \<in> set qs. 0 \<le> q \<and> q \<le> 1" and one: "1 \<in> set qs"
  shows "\<exists>ps. pad_constant (pad_amounts sp s) \<lparr>shape = sp, flat = map Fin qs\<rparr>
        = \<lparr>shape = s, flat = map Fin ps\<rparr>
    \<and> (\<forall>p \<in> set ps. 0 \<le> p \<and> p \<le> 1) \<and> 1 \<in> set ps"
proof -
  let ?a = "\<lparr>shape = sp, flat = map Fin qs\<rparr> :: fl ndarray"
  let ?bs = "map fst (pad_amounts sp s)"
  let ?sub = "\<lambda>idx. map (\<lambda>(i, b). i - b) (zip idx ?bs)"
  define f where "f = (\<lambda>idx. if inside ?bs sp idx then qs ! offset sp (?sub idx) else 0)"
  have l2: "length sp = length s" using le by (rule list_all2_lengthD)
  have lb: "length ?bs = length sp" using l2 by (simp add: pad_amounts_def)
  have valid: "list_all2 (<) (?sub idx) sp" if "inside ?bs sp idx" "length idx = length sp" for idx
    unfolding list_all2_conv_all_nth
  proof (intro conjI allI impI)
    show "length (?sub idx) = length sp" using that(2) lb by simp
    fix k assume "k < length (?sub idx)"
    then have k: "k < length sp" using that(2) lb by simp
    have "?bs ! k \<le> idx ! k \<and> idx ! k < ?bs ! k + sp ! k"
      using that k lb by (simp add: inside_nth)
    moreover have "?sub idx ! k = idx ! k - ?bs ! k" using that(2) lb k by simp
    ultimately show "?sub idx ! k < sp ! k" by linarith
  qed
  have F: "(if inside ?bs sp idx then item ?a (?sub idx) else Fin 0) = Fin (f idx)"
    if "idx \<in> set (indices s)" for idx
  proof (cases "inside ?bs sp idx")
    case True
    have "length idx = length sp"
      using that l2 by (auto simp: set_indices dest: list_all2_lengthD)
    then have "offset sp (?sub idx) < length qs"
      using valid [OF True] wf by (simp add: offset_less)
    then show ?thesis using True by (simp add: f_def item_def)
  next
    case False
    then show ?thesis by (simp add: f_def)
  qed
  have eq: "pad_constant (pad_amounts sp s) ?a = \<lparr>shape = s, flat = map Fin (map f (indices s))\<rparr>"
    using F by (simp add: pad_constant_def tabulate_def padded_shape_amounts [OF le] comp_def)
  have rng: "\<forall>p \<in> set (map f (indices s)). 0 \<le> p \<and> p \<le> 1"
  proof
    fix p assume "p \<in> set (map f (indices s))"
    then obtain idx where idx: "idx \<in> set (indices s)" "p = f idx" by auto
    show "0 \<le> p \<and> p \<le> 1"
    proof (cases "inside ?bs sp idx")
      case True
      have "length idx = length sp"
        using idx(1) l2 by (auto simp: set_indices dest: list_all2_lengthD)
      then have "offset sp (?sub idx) < length qs"
        using valid [OF True] wf by (simp add: offset_less)
      then have "f idx \<in> set qs" using True by (simp add: f_def)
      then show ?thesis using range idx(2) by simp
    next
      case False
      then show ?thesis using idx(2) by (simp add: f_def)
    qed
  qed
  have "1 \<in> set (map f (indices s))"
  proof -
    from one obtain k where k: "k < length qs" "qs ! k = 1" by (auto simp: in_set_conv_nth)
    then have "k \<in> set (map (offset sp) (indices sp))" using wf by (simp add: offset_indices)
    then obtain j where j: "j \<in> set (indices sp)" "offset sp j = k" by auto
    then have jv: "list_all2 (<) j sp" by (simp add: set_indices)
    let ?idx = "map (\<lambda>(i, b). i + b) (zip j ?bs)"
    from shifted_index [OF jv le]
    have "list_all2 (<) ?idx s" "inside ?bs sp ?idx" "?sub ?idx = j" by simp_all
    then have "?idx \<in> set (indices s)" "f ?idx = 1"
      using j(2) k(2) by (simp_all add: set_indices f_def)
    then show ?thesis by force
  qed
  with eq rng show ?thesis by blast
qed

lemma upt3: "[0..<3] = [0, 1, 2]"
  by (simp add: upt_rec)

lemma upt5: "[0..<5] = [0, 1, 2, 3, 4]"
  by (simp add: upt_rec)

lemma scale_012:
  "scale \<lparr>shape = [3], flat = [Fin 0, Fin 1, Fin 2]\<rparr>
    = Inr \<lparr>shape = [3], flat = [Fin 0, Fin (1 / 2), Fin 1]\<rparr>"
  by (simp add: scale_def nanmin_def nanmax_def reduce_def map_array_def
      fl_fmin_def fl_fmax_def minus_fl_def overflow_small)

lemma padding_3_5:
  "fft_pad \<lparr>shape = [3], flat = [a, b, c]\<rparr> (PadSeq [Some 5]) mode
    = np_pad \<lparr>shape = [3], flat = [a, b, c]\<rparr> [(1, 1)] mode"
  by (simp add: fft_pad_def calc_pad_pair)

lemma pad_constant_3_5:
  "np_pad \<lparr>shape = [3], flat = [a, b, c]\<rparr> [(1, 1)] Constant
    = Inr \<lparr>shape = [5], flat = [Fin 0, a, b, c, Fin 0]\<rparr>"
  by (simp add: np_pad_def ndim_def pad_constant_def padded_shape_def tabulate_def upt5
      inside_def item_def)

lemma median_half: "np_median [Fin 0, Fin (1 / 2), Fin 1] = Fin (1 / 2)"
  by (simp add: np_median_def fl_sort_def)

lemma pad_median_3_5:
  "np_pad \<lparr>shape = [3], flat = [Fin 0, Fin (1 / 2), Fin 1]\<rparr> [(1, 1)] Median
    = Inr \<lparr>shape = [5], flat = [Fin (1 / 2), Fin 0, Fin (1 / 2), Fin 1, Fin (1 / 2)]\<rparr>"
  by (simp add: np_pad_def ndim_def pad_median_def pad_median_axis_def tabulate_def upt5 upt3
      item_def median_half Let_def)

section \<open>The loop without prediction\<close>

lemma add_zero_fl: "v + Fin 0 = v"
  by (cases v) simp_all

lemma clamp_idem:
  "map_array (\<lambda>v. if fl_lt v (Fin 0) then Fin 0 else v)
     (map_array (\<lambda>v. if fl_lt v (Fin 0) then Fin 0 else v) a)
   = map_array (\<lambda>v. if fl_lt v (Fin 0) then Fin 0 else v) a"
  by (simp add: map_array_def)

lemma map_array_id:
  assumes "\<And>v. f v = v"
  shows "map_array f a = a"
proof -
  have "map f (flat a) = flat a" using assms by (induction "flat a") (simp_all add: map_idI)
  then show ?thesis by (cases a) (simp add: map_array_def)
qed

lemma rl_alpha_unit:
  assumes "rl_alpha i g g2 = Inr al"
  shows "\<exists>r. al = Fin r \<and> 0 \<le> r \<and> r \<le> 1"
proof (cases "i > 1")
  case False
  with assms show ?thesis by (auto simp: rl_alpha_def)
next
  case True
  with assms have "fl_le (Fin 0) al \<and> fl_le al (Fin 1)"
    by (auto simp: rl_alpha_def bind_Inr_iff Let_def split: if_splits)
  then show ?thesis by (cases al) simp_all
qed

lemma rl_alpha_first: "i \<le> 1 \<Longrightarrow> rl_alpha i g g2 = Inr (Fin 0)"
  by (simp add: rl_alpha_def)

lemma enusure_positive_clamped:
  assumes "enusure_positive (map_array (\<lambda>v. if fl_lt v (Fin 0) then Fin 0 else v) a) (Fin 0) = Inr y"
  shows "y = map_array (\<lambda>v. if fl_lt v (Fin 0) then Fin 0 else v) a"
  using assms by (simp add: enusure_positive_def clamp_idem split: if_splits)

lemma rl_step_vanilla:
  assumes step: "rl_step B img otf 0 i st = Inr st'"
    and inv: "i = 0 \<or> h2_t st = Some (Scalar (Fin 0))"
  shows "vanilla_step B img otf (y_t st) = Inr (y_t st')
    \<and> u_t st' = Some (y_t st') \<and> h2_t st' = Some (Scalar (Fin 0))"
proof -
  let ?clamp = "map_array (\<lambda>v. if fl_lt v (Fin 0) then Fin 0 else v)"
  from step obtain fy prod1 reblur im_ratio fr prod2 estimate raw g al h h1 s1 h2 y0 y1 where
    c: "urfftn B (y_t st) = Inr fy" "binop cmul otf fy = Inr prod1"
      "uirfftn B prod1 = Inr reblur" "binop (/) img reblur = Inr im_ratio"
      "urfftn B im_ratio = Inr fr" "binop cmul (map_array cconj otf) fr = Inr prod2"
      "uirfftn B prod2 = Inr estimate" "binop (*) (y_t st) estimate = Inr raw"
    and g: "binop (-) (?clamp raw) (y_t st) = Inr g"
    and al: "rl_alpha i g (g_tm1 st) = Inr al"
    and h: "rl_predict 0 al (?clamp raw) (u_t st) (u_tm1 st) (h2_t st) = Inr h"
    and h1: "bound (fst h) = Inr h1"
    and s1: "add_operand (?clamp raw) (smul al h1) = Inr s1"
    and h2: "bound (snd h) = Inr h2"
    and y0: "add_operand s1 (smul (al * al / Fin 2) h2) = Inr y0"
    and y1: "enusure_positive y0 (Fin 0) = Inr y1"
    and st': "st' = \<lparr>u_tm2 = u_tm1 st, u_tm1 = u_t st, u_t = Some (?clamp raw),
                  g_tm2 = g_tm1 st, g_tm1 = Some g,
                  y_t = y1, alpha = al, h1_t = fst h, h2_t = snd h\<rparr>"
    unfolding rl_step_def bind_Inr_iff Let_def by (auto split: if_splits)
  obtain r where r: "al = Fin r" using rl_alpha_unit [OF al] by blast
  have al0: "i = 0 \<Longrightarrow> al = Fin 0" using al by (simp add: rl_alpha_def)
  have hh: "h = (Some (Scalar (Fin 0)), Some (Scalar (Fin 0)))"
    using h inv al0 by (auto simp: rl_predict_def split: if_splits)
  have h1v: "h1 = Scalar (Fin 0)" and h2v: "h2 = Scalar (Fin 0)"
    using h1 h2 hh by (simp_all add: bound_def)
  have s1v: "s1 = ?clamp raw"
    using s1 by (simp add: h1v r map_array_id add_zero_fl)
  have y0v: "y0 = ?clamp raw"
    using y0 by (simp add: h2v r s1v map_array_id add_zero_fl)
  have y1v: "y1 = ?clamp raw"
    using y1 unfolding y0v by (rule enusure_positive_clamped)
  have "vanilla_step B img otf (y_t st) = Inr (?clamp raw)"
    by (simp add: vanilla_step_def c)
  then show ?thesis by (simp add: st' y1v hh)
qed

lemma rl_loop_split:
  "rl_loop B img otf po (k + m) i st = Inr s' \<longleftrightarrow>
     (\<exists>sk. rl_loop B img otf po k i st = Inr sk \<and> rl_loop B img otf po m (i + k) sk = Inr s')"
  by (induction k arbitrary: i st) (auto simp: bind_Inr_iff)

lemma rl_loop_vanilla:
  assumes "rl_loop B img otf 0 k i st = Inr sk"
    and "i = 0 \<or> h2_t st = Some (Scalar (Fin 0))"
  shows "vanilla_loop B img otf k (y_t st) = Inr (y_t sk)
    \<and> (0 < k \<longrightarrow> u_t sk = Some (y_t sk))"
  using assms
proof (induction k arbitrary: i st)
  case 0
  then show ?case by simp
next
  case (Suc k)
  from Suc.prems(1) obtain st' where
    step: "rl_step B img otf 0 i st = Inr st'"
    and rest: "rl_loop B img otf 0 k (Suc i) st' = Inr sk"
    by (auto simp: bind_Inr_iff)
  from rl_step_vanilla [OF step Suc.prems(2)]
  have v: "vanilla_step B img otf (y_t st) = Inr (y_t st')"
    and u: "u_t st' = Some (y_t st')" and h: "h2_t st' = Some (Scalar (Fin 0))"
    by simp_all
  from Suc.IH [OF rest] h
  have ih: "vanilla_loop B img otf k (y_t st') = Inr (y_t sk)"
    "0 < k \<longrightarrow> u_t sk = Some (y_t sk)" by simp_all
  have "u_t sk = Some (y_t sk)"
  proof (cases k)
    case 0
    with rest u show ?thesis by simp
  next
    case (Suc j)
    with ih(2) show ?thesis by simp
  qed
  then show ?case using v ih(1) by simp
qed

section \<open>The loop on an impulse response\<close>

lemma zip_const_left:
  "list_all (\<lambda>z. z = k) xs \<Longrightarrow> length xs = length ys \<Longrightarrow>
    map (\<lambda>(x, y). f x y) (zip xs ys) = map (f k) ys"
  by (induction xs ys rule: list_induct2') simp_all

lemma binop_const_left:
  assumes "wf_array a" and "wf_array b" and "shape b = shape a"
    and "list_all (\<lambda>z. z = k) (flat a)"
  shows "binop f a b = Inr (map_array (f k) b)"
proof -
  have len: "length (flat a) = length (flat b)"
    using assms(1-3) by (simp add: wf_array_def)
  show ?thesis
    using binop_same_shape [of a b f] assms zip_const_left [OF assms(4) len, of f]
    by (simp add: map_array_def)
qed

lemma binop_Fin:
  assumes "length ps = prod_list s" and "length qs = prod_list s"
  shows "binop f \<lparr>shape = s, flat = map Fin ps\<rparr> \<lparr>shape = s, flat = map Fin qs\<rparr>
    = Inr \<lparr>shape = s, flat = map (\<lambda>(p, q). f (Fin p) (Fin q)) (zip ps qs)\<rparr>"
  using binop_same_shape [of "\<lparr>shape = s, flat = map Fin ps\<rparr>" "\<lparr>shape = s, flat = map Fin qs\<rparr>" f]
    assms
  by (simp add: wf_array_def zip_map_map comp_def case_prod_unfold)

lemma np_sum_zeros: "np_sum \<lparr>shape = s, flat = map (\<lambda>p. Fin 0) ps\<rparr> = Fin 0"
proof -
  have "fold (\<lambda>v acc. acc + v) (map (\<lambda>p. Fin 0) ps) (Fin 0) = Fin 0"
    by (induction ps) simp_all
  then show ?thesis by (simp add: np_sum_def)
qed

lemma map2_same: "map (\<lambda>(p, q). f p q) (zip ps ps) = map (\<lambda>p. f p p) ps"
  by (simp add: zip_same_conv_map comp_def)

lemma rl_alpha_zero_residual:
  assumes "length ps = prod_list s"
    and "i \<le> 1 \<or> g2 = Some \<lparr>shape = s, flat = map (\<lambda>p. Fin 0) ps\<rparr>"
  shows "rl_alpha i \<lparr>shape = s, flat = map (\<lambda>p. Fin 0) ps\<rparr> g2 = Inr (Fin 0)"
proof (cases "i \<le> 1")
  case True
  then show ?thesis by (simp add: rl_alpha_def)
next
  case False
  let ?z = "\<lparr>shape = s, flat = map (\<lambda>p. Fin 0) ps\<rparr> :: fl ndarray"
  have z: "?z = \<lparr>shape = s, flat = map Fin (map (\<lambda>p. 0) ps)\<rparr>" by (simp add: comp_def)
  have g2: "g2 = Some ?z" using False assms(2) by simp
  have m: "binop (*) ?z ?z = Inr ?z"
    unfolding z using assms(1) by (subst binop_Fin) (simp_all add: map2_same comp_def)
  have sq: "map_array (\<lambda>v. v * v) ?z = ?z" by (simp add: map_array_def comp_def)
  show ?thesis
    using False
    by (simp add: rl_alpha_def g2 bound_def m sq np_sum_zeros py_min_def py_max_def Let_def)
qed

lemma rl_step_impulse:
  assumes ex: "exact_pair B s c"
    and f0: "urfftn B (origin_impulse s) = Inr f0"
    and otf: "otf = f0"
    and len: "length ps = prod_list s" and pos: "\<forall>p \<in> set ps. 0 < p"
    and img: "img = \<lparr>shape = s, flat = map Fin ps\<rparr>"
    and y: "y_t st = img"
    and g: "i \<le> 1 \<or> g_tm1 st = Some \<lparr>shape = s, flat = map (\<lambda>p. Fin 0) ps\<rparr>"
  shows "\<exists>st'. rl_step B img otf po i st = Inr st' \<and> y_t st' = img \<and> u_t st' = Some img
    \<and> g_tm1 st' = Some \<lparr>shape = s, flat = map (\<lambda>p. Fin 0) ps\<rparr> \<and> alpha st' = Fin 0"
proof -
  let ?k = "(Fin c, Fin 0) :: cfl"
  let ?z = "\<lparr>shape = s, flat = map (\<lambda>p. Fin 0) ps\<rparr> :: fl ndarray"
  from ex f0 have c0: "c \<noteq> 0" and wf0: "wf_array f0"
    and const: "list_all (\<lambda>z. z = ?k) (flat f0)"
    and pair: "\<And>y. shape y = s \<Longrightarrow> wf_array y \<Longrightarrow> list_all isfinite (flat y) \<Longrightarrow>
        \<exists>fy. urfftn B y = Inr fy \<and> wf_array fy \<and> shape fy = shape f0
          \<and> uirfftn B (map_array (cmul ?k) fy) = Inr (map_array (\<lambda>v. Fin c * v) y)"
    by (auto simp: exact_pair_def)
  have cconst: "list_all (\<lambda>z. z = ?k) (flat (map_array cconj f0))"
    using const by (auto simp: list_all_iff cconj_def)
  have wfi: "wf_array img" "shape img = s" "list_all isfinite (flat img)"
    using len by (simp_all add: img wf_array_def list_all_iff)
  obtain fy where fy: "urfftn B img = Inr fy" "wf_array fy" "shape fy = shape f0"
    "uirfftn B (map_array (cmul ?k) fy) = Inr (map_array (\<lambda>v. Fin c * v) img)"
    using pair [OF wfi(2) wfi(1) wfi(3)] by blast
  have prod1: "binop cmul otf fy = Inr (map_array (cmul ?k) fy)"
    unfolding otf using wf0 fy(2,3) const by (rule binop_const_left)
  have reblur: "map_array (\<lambda>v. Fin c * v) img = \<lparr>shape = s, flat = map Fin (map (\<lambda>p. c * p) ps)\<rparr>"
    by (simp add: img map_array_def comp_def)
  define ratio :: "fl ndarray" where "ratio = \<lparr>shape = s, flat = map Fin (map (\<lambda>p. 1 / c) ps)\<rparr>"
  have ratio: "binop (/) img \<lparr>shape = s, flat = map Fin (map (\<lambda>p. c * p) ps)\<rparr> = Inr ratio"
    unfolding img ratio_def using len pos c0
    by (subst binop_Fin) (auto simp: zip_map2 zip_same_conv_map comp_def)
  have ratio': "binop (/) img (map_array (\<lambda>v. Fin c * v) img) = Inr ratio"
    by (subst reblur) (rule ratio)
  have wfr: "wf_array ratio" "shape ratio = s" "list_all isfinite (flat ratio)"
    using len by (simp_all add: ratio_def wf_array_def list_all_iff)
  obtain fr where fr: "urfftn B ratio = Inr fr" "wf_array fr" "shape fr = shape f0"
    "uirfftn B (map_array (cmul ?k) fr) = Inr (map_array (\<lambda>v. Fin c * v) ratio)"
    using pair [OF wfr(2) wfr(1) wfr(3)] by blast
  have prod2: "binop cmul (map_array cconj otf) fr = Inr (map_array (cmul ?k) fr)"
    unfolding otf using wf0 fr(2,3) cconst by (intro binop_const_left) simp_all
  have est: "map_array (\<lambda>v. Fin c * v) ratio = \<lparr>shape = s, flat = map Fin (map (\<lambda>p. 1) ps)\<rparr>"
    using c0 by (simp add: ratio_def map_array_def comp_def)
  have raw: "binop (*) img \<lparr>shape = s, flat = map Fin (map (\<lambda>p. 1) ps)\<rparr> = Inr img"
    unfolding img using len
    by (subst binop_Fin) (simp_all add: zip_map2 zip_same_conv_map comp_def)
  have raw': "binop (*) img (map_array (\<lambda>v. Fin c * v) ratio) = Inr img"
    by (subst est) (rule raw)
  have clamp: "map_array (\<lambda>v. if fl_lt v (Fin 0) then Fin 0 else v) img = img"
    using pos by (auto simp: img map_array_def intro!: map_idI dest: order.asym [rotated])
  have gz: "binop (-) img img = Inr ?z"
    unfolding img using len
    by (subst binop_Fin) (simp_all add: zip_same_conv_map comp_def minus_fl_def)
  have al: "rl_alpha i ?z (g_tm1 st) = Inr (Fin 0)"
    using len g by (rule rl_alpha_zero_residual)
  have pred: "rl_predict po (Fin 0) img (u_t st) (u_tm1 st) (h2_t st)
      = Inr (Some (Scalar (Fin 0)), Some (Scalar (Fin 0)))"
    by (simp add: rl_predict_def)
  have addz: "map_array (\<lambda>v. v + Fin 0) img = img"
    by (simp add: map_array_id add_zero_fl)
  have ens: "enusure_positive img (Fin 0) = Inr img"
    using wfi(3) clamp by (simp add: enusure_positive_def)
  have nonneg: "list_all (\<lambda>v. fl_le (Fin 0) v) (flat img)"
    using pos by (auto simp: img list_all_iff)
  show ?thesis
    using nonneg
    by (simp add: rl_step_def y fy(1) prod1 fy(4) ratio' fr(1) prod2 fr(4) raw' clamp
        gz al pred bound_def addz ens Let_def del: flat_map_array shape_map_array)
qed

lemma rl_loop_impulse:
  assumes ex: "exact_pair B s c"
    and f0: "urfftn B (origin_impulse s) = Inr otf"
    and len: "length ps = prod_list s" and pos: "\<forall>p \<in> set ps. 0 < p"
    and img: "img = \<lparr>shape = s, flat = map Fin ps\<rparr>"
    and y: "y_t st = img"
    and g: "i \<le> 1 \<or> g_tm1 st = Some \<lparr>shape = s, flat = map (\<lambda>p. Fin 0) ps\<rparr>"
  shows "\<exists>sk. rl_loop B img otf po n i st = Inr sk \<and> y_t sk = img
    \<and> (0 < n \<longrightarrow> u_t sk = Some img \<and> alpha sk = Fin 0)"
  using y g
proof (induction n arbitrary: i st)
  case 0
  then show ?case by simp
next
  case (Suc n)
  from rl_step_impulse [OF ex f0 refl len pos img Suc.prems(1) Suc.prems(2), of po]
  obtain st' where st': "rl_step B img otf po i st = Inr st'" "y_t st' = img"
    "u_t st' = Some img" "g_tm1 st' = Some \<lparr>shape = s, flat = map (\<lambda>p. Fin 0) ps\<rparr>"
    "alpha st' = Fin 0"
    by blast
  from Suc.IH [of st' "Suc i"] st'(2,4)
  obtain sk where sk: "rl_loop B img otf po n (Suc i) st' = Inr sk" "y_t sk = img"
    "0 < n \<longrightarrow> u_t sk = Some img \<and> alpha sk = Fin 0"
    by blast
  have "u_t sk = Some img \<and> alpha sk = Fin 0"
  proof (cases n)
    case 0
    with sk(1) st'(3,5) show ?thesis by simp
  next
    case (Suc m)
    with sk(3) show ?thesis by simp
  qed
  then show ?case using st'(1) sk(1,2) by simp
qed

lemma rl_otf_impulse:
  assumes ex: "exact_pair B s c" and sh: "ifftshift psf_norm = origin_impulse s"
  shows "\<exists>otf. rl_otf B (Scalar (Fin 1)) psf_norm = Inr otf
    \<and> urfftn B (origin_impulse s) = Inr otf"
proof -
  from ex obtain f0 where f0: "urfftn B (origin_impulse s) = Inr f0"
    and const: "list_all (\<lambda>z. z = (Fin c, Fin 0)) (flat f0)"
    by (auto simp: exact_pair_def)
  have "map (cmul (of_fl (Fin 1))) (flat f0) = flat f0"
    using const by (intro map_idI) (auto simp: list_all_iff cmul_def of_fl_def minus_fl_def)
  then have "map_array (\<lambda>z. cmul (of_fl (Fin 1)) z) f0 = f0"
    by (cases f0) (simp add: map_array_def)
  then show ?thesis by (simp add: rl_otf_def sh f0)
qed

lemma richardson_lucy_impulse:
  assumes ex: "exact_pair B (shape img) c"
    and wf: "wf_array img" and pos: "list_all (\<lambda>v. isfinite v \<and> fl_lt (Fin 0) v) (flat img)"
    and nd: "ndim psf = ndim img"
    and pn: "psf_normalize img psf = Inr psf_norm"
    and sh: "ifftshift psf_norm = origin_impulse (shape img)"
    and it: "0 < iterations"
  shows "richardson_lucy B img psf iterations clip prediction_order None
    = Inr (Some (if clip then rl_clip img else img))"
proof -
  have "list_all isfinite (flat img)" using pos by (simp add: list_all_iff)
  then obtain ps where ps: "flat img = map Fin ps" using finite_list_reals by blast
  have img: "img = \<lparr>shape = shape img, flat = map Fin ps\<rparr>" using ps by (cases img) simp
  have len: "length ps = prod_list (shape img)" using wf ps by (simp add: wf_array_def)
  have ppos: "\<forall>p \<in> set ps. 0 < p" using pos ps by (auto simp: list_all_iff)
  obtain otf where otf: "rl_otf B (Scalar (Fin 1)) psf_norm = Inr otf"
    "urfftn B (origin_impulse (shape img)) = Inr otf"
    using rl_otf_impulse [OF ex sh] by blast
  have y0: "y_t (rl_init img) = img" by (simp add: rl_init_def)
  from rl_loop_impulse [OF ex otf(2) len ppos img y0, of 0 prediction_order "nat iterations"]
  obtain sk where sk: "rl_loop B img otf prediction_order (nat iterations) 0 (rl_init img) = Inr sk"
    "u_t sk = Some img"
    using it by auto
  show ?thesis
    using nd by (simp add: richardson_lucy_def rl_window_def pn otf(1) sk bound_def)
qed

section \<open>Unit impulses\<close>

lemma sum_unit:
  "distinct xs \<Longrightarrow>
    fold (\<lambda>v acc. acc + v) (map (\<lambda>x. if x = c then Fin 1 else Fin 0) xs) (Fin a)
      = Fin (a + (if c \<in> set xs then 1 else 0))"
  by (induction xs arbitrary: a) auto

lemma np_sum_unit_impulse:
  "list_all2 (<) c s \<Longrightarrow> np_sum (unit_impulse s c) = Fin 1"
  by (simp add: np_sum_def unit_impulse_def tabulate_def sum_unit distinct_indices set_indices)

lemma other_index:
  assumes "2 \<le> prod_list s"
  shows "\<exists>idx \<in> set (indices s). idx \<noteq> c"
proof (rule ccontr)
  assume "\<not> (\<exists>idx \<in> set (indices s). idx \<noteq> c)"
  then have "set (indices s) \<subseteq> {c}" by auto
  then have "card (set (indices s)) \<le> card {c}"
    by (intro card_mono) simp_all
  then have "card (set (indices s)) \<le> 1" by simp
  moreover have "card (set (indices s)) = prod_list s"
    using distinct_card [OF distinct_indices, of s] by (simp add: length_indices)
  ultimately show False using assms by simp
qed

lemma scale_unit_impulse:
  assumes c: "list_all2 (<) c s" and two: "2 \<le> prod_list s"
  shows "scale (unit_impulse s c) = Inr (unit_impulse s c)"
proof -
  define rs :: "real list" where "rs = map (\<lambda>idx. if idx = c then 1 else 0) (indices s)"
  have u: "unit_impulse s c = \<lparr>shape = s, flat = map Fin rs\<rparr>"
    by (simp add: unit_impulse_def tabulate_def rs_def comp_def if_distrib)
  have cin: "c \<in> set (indices s)" using c by (simp add: set_indices)
  then have one: "1 \<in> set rs" by (force simp: rs_def)
  obtain idx where "idx \<in> set (indices s)" "idx \<noteq> c" using other_index [OF two] by blast
  then have zero: "0 \<in> set rs" by (force simp: rs_def)
  have range: "\<And>r. r \<in> set rs \<Longrightarrow> 0 \<le> r \<and> r \<le> 1" by (auto simp: rs_def)
  have ne: "rs \<noteq> []" using one by auto
  have mn: "Min (set rs) = 0" using zero range by (intro Min_eqI) auto
  have mx: "Max (set rs) = 1" using one range by (intro Max_eqI) auto
  have "Max (set rs) - Min (set rs) < overflow_bound"
    using overflow_bound_large by (simp add: mn mx less_trans [of 1 "2 ^ 1023"])
  then show ?thesis
    unfolding u using scale_Fin [OF ne, of s] by (simp add: mn mx)
qed

lemma half_up: "(d::nat) - d div 2 = (d + 1) div 2"
  by linarith

lemma pad_before_half: "pad_before n m = (m - n + 1) div 2"
  unfolding pad_before_def by (rule half_up)

lemma centre_less:
  assumes "0 < n" and "n \<le> m"
  shows "m div 2 - pad_before n m < n"
proof -
  obtain d where m: "m = n + d" using assms(2) le_Suc_ex by blast
  have a: "2 * ((n + d) div 2) \<le> n + d" by simp
  have b: "d \<le> 2 * ((d + 1) div 2)" by linarith
  have "(n + d) div 2 - (d + 1) div 2 < n" using a b assms(1) by linarith
  then show ?thesis unfolding pad_before_half m by simp
qed

lemma centre_plus:
  assumes "0 < n" and "n \<le> m"
  shows "m div 2 - pad_before n m + pad_before n m = m div 2"
proof -
  obtain d where m: "m = n + d" using assms(2) le_Suc_ex by blast
  have "d + 1 \<le> n + d" using assms(1) by simp
  then have "(d + 1) div 2 \<le> (n + d) div 2" by (rule div_le_mono)
  then show ?thesis unfolding pad_before_half m by simp
qed

lemma centre_valid:
  "list_all2 (\<le>) sp s \<Longrightarrow> list_all (\<lambda>n. 0 < n) sp \<Longrightarrow> list_all2 (<) (centre_index sp s) sp"
  by (induction sp s rule: list_all2_induct) (simp_all add: centre_index_def centre_less)

lemma centre_shift:
  "list_all2 (\<le>) sp s \<Longrightarrow> list_all (\<lambda>n. 0 < n) sp \<Longrightarrow>
    map (\<lambda>(i, b). i + b) (zip (centre_index sp s) (map fst (pad_amounts sp s)))
      = map (\<lambda>m. m div 2) s"
  by (induction sp s rule: list_all2_induct)
    (simp_all add: centre_index_def pad_amounts_def centre_plus)

lemma prod_list_pos: "2 \<le> prod_list (sp :: nat list) \<Longrightarrow> list_all (\<lambda>n. 0 < n) sp \<and> sp \<noteq> []"
proof -
  assume two: "2 \<le> prod_list sp"
  have "0 \<notin> set sp"
  proof
    assume "0 \<in> set sp"
    then have "prod_list sp = 0" by (simp add: prod_list_zero_iff)
    with two show False by simp
  qed
  then have "list_all (\<lambda>n. 0 < n) sp" by (auto simp: list_all_iff intro: Nat.gr0I)
  moreover have "sp \<noteq> []" using two by auto
  ultimately show ?thesis by simp
qed




lemma half_valid:
  fixes s :: "nat list"
  shows "list_all (\<lambda>m. 0 < m) s \<Longrightarrow> list_all2 (<) (map (\<lambda>m. m div 2) s) s"
  by (induction s) auto

lemma pos_mono:
  fixes sp s :: "nat list"
  shows "list_all2 (\<le>) sp s \<Longrightarrow> list_all (\<lambda>n. 0 < n) sp \<Longrightarrow> list_all (\<lambda>m. 0 < m) s"
  by (induction sp s rule: list_all2_induct) auto


lemma unit_impulse_div_one: "map_array (\<lambda>v. v / Fin 1) (unit_impulse s c) = unit_impulse s c"
  by (simp add: unit_impulse_def tabulate_def map_array_def)

lemma psf_normalize_impulse:
  assumes le: "list_all2 (\<le>) sp (shape img)" and two: "2 \<le> prod_list sp"
  shows "psf_normalize img (unit_impulse sp (centre_index sp (shape img)))
    = Inr (unit_impulse (shape img) (map (\<lambda>m. m div 2) (shape img)))"
proof -
  let ?s = "shape img"
  let ?c = "centre_index sp ?s"
  have pos: "list_all (\<lambda>n. 0 < n) sp" and ne: "sp \<noteq> []" using prod_list_pos [OF two] by simp_all
  have cv: "list_all2 (<) ?c sp" using le pos by (rule centre_valid)
  have len: "length (pad_amounts sp ?s) = length sp"
    using le by (simp add: length_pad_amounts list_all2_lengthD)
  have shp: "shape (unit_impulse sp ?c) = sp" by (simp add: unit_impulse_def tabulate_def)
  have sc: "scale (unit_impulse sp ?c) = Inr (unit_impulse sp ?c)"
    using cv two by (rule scale_unit_impulse)
  have pad: "fft_pad (unit_impulse sp ?c) (PadSeq (map (\<lambda>n. Some (int n)) ?s)) Constant
      = Inr (unit_impulse ?s (map (\<lambda>m. m div 2) ?s))"
    by (simp add: fft_pad_constant [OF le shp ne] pad_constant_unit_impulse [OF cv len]
        padded_shape_amounts [OF le] centre_shift [OF le pos])
  have hv: "list_all2 (<) (map (\<lambda>m. m div 2) ?s) ?s"
    using pos_mono [OF le pos] by (rule half_valid)
  show ?thesis
    by (simp add: psf_normalize_def sc pad np_sum_unit_impulse [OF hv] unit_impulse_div_one)
qed

section \<open>The transforms of two data points\<close>

lemma upt2: "[0..<2] = [0, Suc 0]"
  by (simp add: upt_rec)

lemma ang [simp]: "angle [2] [k] [n] = pi * real (k * n)"
  by (simp add: angle_def)

lemma urfftn2:
  "spec_urfftn \<lparr>shape = [2], flat = [Fin a, Fin b]\<rparr>
    = Inr \<lparr>shape = [2], flat = [(Fin ((a + b) / sqrt 2), Fin 0), (Fin ((a - b) / sqrt 2), Fin 0)]\<rparr>"
  by (simp add: spec_urfftn_def np_rfftn_def no_points_def half_shape_def bind_def tabulate_def
      upt2 dft_sum_def csum_def cmul_def of_fl_def twiddle_def item_def map_array_def
      minus_fl_def)

lemma uirfftn2:
  "spec_uirfftn \<lparr>shape = [2], flat = [(Fin p, Fin p'), (Fin q, Fin q')]\<rparr>
    = Inr \<lparr>shape = [2], flat = [Fin ((p + q) / sqrt 2), Fin ((p - q) / sqrt 2)]\<rparr>"
  apply (simp add: spec_uirfftn_def np_irfftn_def no_points_def half_shape_def bind_def tabulate_def
      upt2 dft_sum_def csum_def cmul_def of_fl_def twiddle_def item_def map_array_def
      minus_fl_def ndim_def hermitian_def item_or_zero_def cconj_def)
  apply (simp add: field_simps)
  done

lemma origin_impulse2: "origin_impulse [2] = \<lparr>shape = [2], flat = [Fin 1, Fin 0]\<rparr>"
  by (simp add: origin_impulse_def unit_impulse_def tabulate_def upt2)

lemma array2:
  assumes "shape y = [2]" and "wf_array y" and "list_all isfinite (flat y)"
  shows "\<exists>a b. y = \<lparr>shape = [2], flat = [Fin a, Fin b]\<rparr>"
proof -
  obtain rs where rs: "flat y = map Fin rs" using finite_list_reals [OF assms(3)] by blast
  have "length rs = 2" using assms(1,2) rs by (simp add: wf_array_def)
  then obtain a b where "rs = [a, b]"
    by (metis (no_types, opaque_lifting) One_nat_def Suc_1 length_0_conv length_Suc_conv)
  then show ?thesis using rs assms(1) by (cases y) auto
qed

lemma sqrt2_sq: "sqrt 2 * sqrt 2 = (2::real)"
  by simp

lemma exact_pair_pyfftw2: "exact_pair pyfftw_backend [2] (1 / sqrt 2)"
proof -
  let ?c = "1 / sqrt 2 :: real"
  let ?f0 = "\<lparr>shape = [2], flat = [(Fin ?c, Fin 0), (Fin ?c, Fin 0)]\<rparr> :: cfl ndarray"
  have f0: "urfftn pyfftw_backend (origin_impulse [2]) = Inr ?f0"
    by (simp add: pyfftw_backend_def origin_impulse2 urfftn2)
  have wf0: "wf_array ?f0" by (simp add: wf_array_def)
  have pair: "\<exists>fy. urfftn pyfftw_backend y = Inr fy \<and> wf_array fy \<and> shape fy = shape ?f0
       \<and> uirfftn pyfftw_backend (map_array (cmul (Fin ?c, Fin 0)) fy)
           = Inr (map_array (\<lambda>v. Fin ?c * v) y)"
    if "shape y = [2] \<and> wf_array y \<and> list_all isfinite (flat y)" for y
  proof -
    from that obtain a b where y: "y = \<lparr>shape = [2], flat = [Fin a, Fin b]\<rparr>"
      using array2 by blast
    let ?fy = "\<lparr>shape = [2], flat = [(Fin ((a + b) / sqrt 2), Fin 0), (Fin ((a - b) / sqrt 2), Fin 0)]\<rparr> :: cfl ndarray"
    have 1: "urfftn pyfftw_backend y = Inr ?fy"
      by (simp add: pyfftw_backend_def y urfftn2)
    have 2: "map_array (cmul (Fin ?c, Fin 0)) ?fy
        = \<lparr>shape = [2], flat = [(Fin (?c * ((a + b) / sqrt 2)), Fin 0),
                                (Fin (?c * ((a - b) / sqrt 2)), Fin 0)]\<rparr>"
      by (simp add: map_array_def cmul_def minus_fl_def)
    have 3: "uirfftn pyfftw_backend (map_array (cmul (Fin ?c, Fin 0)) ?fy)
        = Inr \<lparr>shape = [2], flat = [Fin (?c * a), Fin (?c * b)]\<rparr>"
      unfolding 2 by (simp add: pyfftw_backend_def uirfftn2 field_simps)
    have 4: "map_array (\<lambda>v. Fin ?c * v) y = \<lparr>shape = [2], flat = [Fin (?c * a), Fin (?c * b)]\<rparr>"
      by (simp add: y map_array_def)
    show ?thesis using 1 3 4 by (simp add: wf_array_def)
  qed
  show ?thesis
    unfolding exact_pair_def using f0 wf0 pair
    by (intro conjI exI [of _ ?f0]) auto
qed

lemma unit_impulse2: "unit_impulse [2] (centre_index [2] [2]) = \<lparr>shape = [2], flat = [Fin 0, Fin 1]\<rparr>"
  by (simp add: unit_impulse_def centre_index_def pad_before_def tabulate_def upt2)

lemma urfftn2_nan:
  "spec_urfftn \<lparr>shape = [2], flat = [NaN, Fin r]\<rparr>
    = Inr \<lparr>shape = [2], flat = [(NaN, NaN), (NaN, NaN)]\<rparr>"
  by (simp add: spec_urfftn_def np_rfftn_def no_points_def half_shape_def bind_def tabulate_def
      upt2 dft_sum_def csum_def cmul_def of_fl_def twiddle_def item_def map_array_def
      minus_fl_def)

lemma uirfftn2_nan:
  "spec_uirfftn \<lparr>shape = [2], flat = [(NaN, NaN), (NaN, NaN)]\<rparr>
    = Inr \<lparr>shape = [2], flat = [NaN, NaN]\<rparr>"
  by (simp add: spec_uirfftn_def np_irfftn_def no_points_def half_shape_def bind_def tabulate_def
      upt2 dft_sum_def csum_def cmul_def of_fl_def twiddle_def item_def map_array_def
      minus_fl_def ndim_def hermitian_def item_or_zero_def cconj_def)

lemma binop2:
  "binop f \<lparr>shape = [2], flat = [a, b]\<rparr> \<lparr>shape = [2], flat = [c, d]\<rparr>
    = Inr \<lparr>shape = [2], flat = [f a c, f b d]\<rparr>"
  by (subst binop_same_shape) (simp_all add: wf_array_def)

lemma rl_step_zero_pixel:
  "rl_step pyfftw_backend \<lparr>shape = [2], flat = [Fin 0, Fin 1]\<rparr>
      \<lparr>shape = [2], flat = [(Fin (1 / sqrt 2), Fin 0), (Fin (1 / sqrt 2), Fin 0)]\<rparr>
      po 0 (rl_init \<lparr>shape = [2], flat = [Fin 0, Fin 1]\<rparr>)
    = Inl (AssertionError ''The array has NaNs'')"
proof -
  have u: "urfftn pyfftw_backend = spec_urfftn" "uirfftn pyfftw_backend = spec_uirfftn"
    by (simp_all add: pyfftw_backend_def)
  have r: "Fin 1 / Fin (1 / sqrt 2) = Fin (sqrt 2)" by simp
  show ?thesis
    by (simp add: rl_step_def rl_init_def u urfftn2 binop2 cmul_def uirfftn2 minus_fl_def
        urfftn2_nan uirfftn2_nan cconj_def map_array_def rl_alpha_def rl_predict_def bound_def
        enusure_positive_def Let_def)
qed

lemma psf_normalize2:
  "psf_normalize \<lparr>shape = [2], flat = [a, b]\<rparr> \<lparr>shape = [2], flat = [Fin 0, Fin 1]\<rparr>
    = Inr \<lparr>shape = [2], flat = [Fin 0, Fin 1]\<rparr>"
proof -
  let ?img = "\<lparr>shape = [2], flat = [a, b]\<rparr> :: fl ndarray"
  have "psf_normalize ?img (unit_impulse [2] (centre_index [2] (shape ?img)))
      = Inr (unit_impulse (shape ?img) (map (\<lambda>m. m div 2) (shape ?img)))"
    by (rule psf_normalize_impulse) simp_all
  moreover have "unit_impulse [2] [1] = \<lparr>shape = [2], flat = [Fin 0, Fin 1]\<rparr>"
    by (simp add: unit_impulse_def tabulate_def upt2)
  ultimately show ?thesis by (simp add: unit_impulse2)
qed

lemma ifftshift2: "ifftshift \<lparr>shape = [2], flat = [a, b]\<rparr> = \<lparr>shape = [2], flat = [b, a]\<rparr>"
  by (simp add: ifftshift_def tabulate_def upt2 item_def)

lemma rl_otf2:
  "rl_otf pyfftw_backend (Scalar (Fin 1)) \<lparr>shape = [2], flat = [Fin 0, Fin 1]\<rparr>
    = Inr \<lparr>shape = [2], flat = [(Fin (1 / sqrt 2), Fin 0), (Fin (1 / sqrt 2), Fin 0)]\<rparr>"
  by (simp add: rl_otf_def ifftshift2 pyfftw_backend_def urfftn2 map_array_def cmul_def of_fl_def
      minus_fl_def)

lemma richardson_lucy_run2:
  "richardson_lucy pyfftw_backend \<lparr>shape = [2], flat = [Fin 3, Fin 5]\<rparr>
      \<lparr>shape = [2], flat = [Fin 0, Fin 1]\<rparr> 3 False po None
    = Inr (Some \<lparr>shape = [2], flat = [Fin 3, Fin 5]\<rparr>)"
proof -
  let ?img = "\<lparr>shape = [2], flat = [Fin 3, Fin 5]\<rparr> :: fl ndarray"
  let ?psf = "\<lparr>shape = [2], flat = [Fin 0, Fin 1]\<rparr> :: fl ndarray"
  have 1: "exact_pair pyfftw_backend (shape ?img) (1 / sqrt 2)"
    using exact_pair_pyfftw2 by simp
  have 2: "wf_array ?img" by (simp add: wf_array_def)
  have 3: "list_all (\<lambda>v. isfinite v \<and> fl_lt (Fin 0) v) (flat ?img)" by simp
  have 4: "ndim ?psf = ndim ?img" by (simp add: ndim_def)
  have 5: "psf_normalize ?img ?psf = Inr ?psf" by (rule psf_normalize2)
  have 6: "ifftshift ?psf = origin_impulse (shape ?img)"
    by (simp add: ifftshift2 origin_impulse2)
  have 7: "0 < (3::int)" by simp
  from richardson_lucy_impulse [OF 1 2 3 4 5 6 7, of False po]
  show ?thesis by simp
qed

section \<open>The transforms of two by two data points\<close>

lemma sqrt4: "sqrt 4 = 2"
  by (rule real_sqrt_unique) simp_all

lemma indices22: "indices [2, 2] = [[0, 0], [0, Suc 0], [Suc 0, 0], [Suc 0, Suc 0]]"
  by (simp add: upt2)

lemma angle22 [simp]: "angle [2, 2] [k1, k2] [n1, n2] = pi * real (k1 * n1 + k2 * n2)"
  by (simp add: angle_def algebra_simps)

lemma urfftn22:
  "spec_urfftn \<lparr>shape = [2, 2], flat = [Fin a, Fin b, Fin c, Fin d]\<rparr>
    = Inr \<lparr>shape = [2, 2], flat =
        [(Fin ((a + b + c + d) / 2), Fin 0), (Fin ((a - b + c - d) / 2), Fin 0),
         (Fin ((a + b - c - d) / 2), Fin 0), (Fin ((a - b - c + d) / 2), Fin 0)]\<rparr>"
  by (simp add: spec_urfftn_def np_rfftn_def no_points_def half_shape_def bind_def tabulate_def
      upt2 dft_sum_def csum_def cmul_def of_fl_def twiddle_def item_def map_array_def
      minus_fl_def sqrt4 del: indices.simps(2))
    (simp add: upt2 dft_sum_def csum_def cmul_def of_fl_def twiddle_def item_def
      minus_fl_def sqrt4 field_simps)

lemma uirfftn22:
  "spec_uirfftn \<lparr>shape = [2, 2], flat = [(Fin p, Fin p'), (Fin q, Fin q'), (Fin r, Fin r'), (Fin t, Fin t')]\<rparr>
    = Inr \<lparr>shape = [2, 2], flat =
        [Fin ((p + q + r + t) / 2), Fin ((p - q + r - t) / 2),
         Fin ((p + q - r - t) / 2), Fin ((p - q - r + t) / 2)]\<rparr>"
  by (simp add: spec_uirfftn_def np_irfftn_def no_points_def half_shape_def bind_def tabulate_def
      upt2 dft_sum_def csum_def cmul_def of_fl_def twiddle_def item_def map_array_def
      minus_fl_def ndim_def hermitian_def item_or_zero_def cconj_def sqrt4)

lemma binop22:
  "binop f \<lparr>shape = [2, 2], flat = [a, b, c, d]\<rparr> \<lparr>shape = [2, 2], flat = [a', b', c', d']\<rparr>
    = Inr \<lparr>shape = [2, 2], flat = [f a a', f b b', f c c', f d d']\<rparr>"
  by (subst binop_same_shape) (simp_all add: wf_array_def)

lemma ifftshift22:
  "ifftshift \<lparr>shape = [2, 2], flat = [a, b, c, d]\<rparr> = \<lparr>shape = [2, 2], flat = [d, c, b, a]\<rparr>"
  by (simp add: ifftshift_def tabulate_def upt2 item_def)

lemma psf_normalize22:
  "psf_normalize \<lparr>shape = [2, 2], flat = [x, y, z, w]\<rparr>
      \<lparr>shape = [2, 2], flat = [Fin 0, Fin 1, Fin 1, Fin 1]\<rparr>
    = Inr \<lparr>shape = [2, 2], flat = [Fin 0, Fin (1 / 3), Fin (1 / 3), Fin (1 / 3)]\<rparr>"
proof -
  have sc: "scale \<lparr>shape = [2, 2], flat = [Fin 0, Fin 1, Fin 1, Fin 1]\<rparr>
      = Inr \<lparr>shape = [2, 2], flat = [Fin 0, Fin 1, Fin 1, Fin 1]\<rparr>"
    by (simp add: scale_def nanmin_def nanmax_def reduce_def map_array_def
        fl_fmin_def fl_fmax_def minus_fl_def overflow_small Let_def)
  have pad: "fft_pad \<lparr>shape = [2, 2], flat = [Fin 0, Fin 1, Fin 1, Fin 1]\<rparr>
        (PadSeq [Some 2, Some 2]) Constant
      = Inr \<lparr>shape = [2, 2], flat = [Fin 0, Fin 1, Fin 1, Fin 1]\<rparr>"
    by (simp add: fft_pad_def calc_pad_pair np_pad_def ndim_def pad_constant_def
        padded_shape_def tabulate_def upt2 inside_def item_def)
  show ?thesis
    by (simp add: psf_normalize_def sc pad np_sum_def map_array_def)
qed

lemma rl_otf22:
  "rl_otf pyfftw_backend (Scalar (Fin 1))
      \<lparr>shape = [2, 2], flat = [Fin 0, Fin (1 / 3), Fin (1 / 3), Fin (1 / 3)]\<rparr>
    = Inr \<lparr>shape = [2, 2], flat =
        [(Fin (1 / 2), Fin 0), (Fin (1 / 6), Fin 0), (Fin (1 / 6), Fin 0), (Fin (- 1 / 6), Fin 0)]\<rparr>"
  by (simp add: rl_otf_def ifftshift22 pyfftw_backend_def urfftn22 map_array_def cmul_def of_fl_def
      minus_fl_def)

lemma rl_run22_two:
  "(case rl_loop pyfftw_backend \<lparr>shape = [2, 2], flat = [Fin 1, Fin 2, Fin 2, Fin 1]\<rparr>
      \<lparr>shape = [2, 2], flat =
        [(Fin (1 / 2), Fin 0), (Fin (1 / 6), Fin 0), (Fin (1 / 6), Fin 0), (Fin (- 1 / 6), Fin 0)]\<rparr>
      2 (Suc (Suc 0)) 0 (rl_init \<lparr>shape = [2, 2], flat = [Fin 1, Fin 2, Fin 2, Fin 1]\<rparr>) of
      Inl e \<Rightarrow> False
    | Inr s \<Rightarrow>
        g_tm1 s = Some \<lparr>shape = [2, 2], flat =
          [Fin (27 / 140), Fin (- 27 / 140), Fin (- 27 / 140), Fin (27 / 140)]\<rparr>
      \<and> g_tm2 s = Some \<lparr>shape = [2, 2], flat =
          [Fin (1 / 5), Fin (- 1 / 5), Fin (- 1 / 5), Fin (1 / 5)]\<rparr>)"
  by (simp add: rl_step_def rl_init_def pyfftw_backend_def urfftn22 uirfftn22
      binop22 cmul_def cconj_def minus_fl_def map_array_def rl_alpha_def rl_predict_def
      bound_def enusure_positive_def Let_def)

lemma rl_run22_three:
  "(case rl_loop pyfftw_backend \<lparr>shape = [2, 2], flat = [Fin 1, Fin 2, Fin 2, Fin 1]\<rparr>
      \<lparr>shape = [2, 2], flat =
        [(Fin (1 / 2), Fin 0), (Fin (1 / 6), Fin 0), (Fin (1 / 6), Fin 0), (Fin (- 1 / 6), Fin 0)]\<rparr>
      2 (Suc (Suc (Suc 0))) 0 (rl_init \<lparr>shape = [2, 2], flat = [Fin 1, Fin 2, Fin 2, Fin 1]\<rparr>) of
      Inl e \<Rightarrow> False
    | Inr s \<Rightarrow>
        alpha s = Fin (1625 / 1763)
      \<and> g_tm1 s = Some \<lparr>shape = [2, 2], flat =
          [Fin (8775 / 49364), Fin (- 8775 / 49364), Fin (- 8775 / 49364), Fin (8775 / 49364)]\<rparr>
      \<and> g_tm2 s = Some \<lparr>shape = [2, 2], flat =
          [Fin (27 / 140), Fin (- 27 / 140), Fin (- 27 / 140), Fin (27 / 140)]\<rparr>)"
  by (simp add: rl_step_def rl_init_def pyfftw_backend_def urfftn22 uirfftn22
      binop22 cmul_def cconj_def minus_fl_def map_array_def rl_alpha_def rl_predict_def
      bound_def enusure_positive_def np_sum_def py_min_def py_max_def Let_def)

lemma alpha_claimed22:
  "alpha_of \<lparr>shape = [2, 2], flat = [Fin (27 / 140), Fin (- 27 / 140), Fin (- 27 / 140), Fin (27 / 140)]\<rparr>
      \<lparr>shape = [2, 2], flat = [Fin (1 / 5), Fin (- 1 / 5), Fin (- 1 / 5), Fin (1 / 5)]\<rparr>
    = Fin (27 / 28)"
  by (simp add: alpha_of_def dot_def clamp_unit_def)

section \<open>The acceleration coefficient\<close>

lemma clamp_unit_code:
  "(let a1 = py_max (py_min a0 (Fin 1)) (Fin 0) in if \<not> isfinite a1 then Fin 0 else a1)
    = clamp_unit a0"
  by (cases a0) (auto simp: py_max_def py_min_def clamp_unit_def Let_def max_def min_def)

lemma clamp_unit_range: "fl_le (Fin 0) (clamp_unit a) \<and> fl_le (clamp_unit a) (Fin 1)"
  by (cases a) (simp_all add: clamp_unit_def)

lemma np_sum_products:
  "np_sum \<lparr>shape = s, flat = map (\<lambda>(x, y). x * y) (zip xs ys)\<rparr> = dot xs ys"
  by (simp add: np_sum_def dot_def fold_map comp_def case_prod_unfold)

lemma np_sum_squares: "np_sum (map_array (\<lambda>v. v * v) a) = dot (flat a) (flat a)"
  by (simp add: np_sum_def dot_def fold_map comp_def zip_same_conv_map)

lemma alpha_checks:
  "(let a1 = py_max (py_min a0 (Fin 1)) (Fin 0);
        a2 = (if \<not> isfinite a1 then Fin 0 else a1)
    in if \<not> fl_le (Fin 0) a2 then Inl (AssertionError ''alpha >= 0'')
       else if \<not> fl_le a2 (Fin 1) then Inl (AssertionError ''alpha <= 1'')
       else Inr a2) = (Inr (clamp_unit a0) :: error + fl)"
  by (cases a0) (auto simp: py_max_def py_min_def clamp_unit_def Let_def max_def min_def)

lemma rl_alpha_dot:
  assumes "1 < i" and "wf_array g" and "wf_array g'" and "shape g' = shape g"
  shows "rl_alpha i g (Some g') = Inr (alpha_of g g')"
proof -
  have m: "binop (*) g g' = Inr \<lparr>shape = shape g, flat = map (\<lambda>(x, y). x * y) (zip (flat g) (flat g'))\<rparr>"
    using assms(2-4) by (intro binop_same_shape) simp_all
  have "rl_alpha i g (Some g') =
      (let a0 = dot (flat g) (flat g') / dot (flat g') (flat g');
           a1 = py_max (py_min a0 (Fin 1)) (Fin 0);
           a2 = (if \<not> isfinite a1 then Fin 0 else a1)
       in if \<not> fl_le (Fin 0) a2 then Inl (AssertionError ''alpha >= 0'')
          else if \<not> fl_le a2 (Fin 1) then Inl (AssertionError ''alpha <= 1'')
          else Inr a2)"
    using assms(1) by (simp add: rl_alpha_def bound_def m np_sum_products np_sum_squares)
  also have "\<dots> = Inr (alpha_of g g')"
    unfolding alpha_of_def by (subst Let_def) (rule alpha_checks)
  finally show ?thesis .
qed

lemma rl_step_residual:
  assumes "rl_step B img otf po i st = Inr st'"
  shows "\<exists>u g. u_t st' = Some u \<and> binop (-) u (y_t st) = Inr g \<and> g_tm1 st' = Some g
    \<and> g_tm2 st' = g_tm1 st \<and> rl_alpha i g (g_tm1 st) = Inr (alpha st') \<and> wf_array g"
proof -
  let ?clamp = "map_array (\<lambda>v. if fl_lt v (Fin 0) then Fin 0 else v)"
  from assms obtain raw g al h y1 where
    g: "binop (-) (?clamp raw) (y_t st) = Inr g"
    and al: "rl_alpha i g (g_tm1 st) = Inr al"
    and st': "st' = \<lparr>u_tm2 = u_tm1 st, u_tm1 = u_t st, u_t = Some (?clamp raw),
                  g_tm2 = g_tm1 st, g_tm1 = Some g,
                  y_t = y1, alpha = al, h1_t = fst h, h2_t = snd h\<rparr>"
    unfolding rl_step_def bind_Inr_iff Let_def by (auto split: if_splits)
  show ?thesis using g al wf_binop [OF g] by (simp add: st')
qed

lemma rl_loop_last:
  assumes "rl_loop B img otf po (Suc i) j st0 = Inr st'"
  shows "\<exists>st. rl_loop B img otf po i j st0 = Inr st \<and> rl_step B img otf po (j + i) st = Inr st'"
proof -
  have "rl_loop B img otf po (i + 1) j st0 = Inr st'" using assms by simp
  then show ?thesis
    unfolding rl_loop_split by (auto simp: bind_Inr_iff)
qed

section \<open>The loop at prediction order zero\<close>

lemma rl_alpha_returns:
  assumes "i \<le> 1 \<or> (\<exists>g'. g2 = Some g' \<and> shape g' = shape g)"
  shows "\<exists>r. rl_alpha i g g2 = Inr (Fin r)"
proof (cases "i \<le> 1")
  case True
  then show ?thesis by (simp add: rl_alpha_def)
next
  case False
  with assms obtain g' where g': "g2 = Some g'" "shape g' = shape g" by auto
  obtain m where m: "binop (*) g g' = Inr m" using binop_shape [of g g' "(*)"] g'(2) by auto
  have "rl_alpha i g g2
      = Inr (clamp_unit (np_sum m / np_sum (map_array (\<lambda>v. v * v) g')))"
    using False alpha_checks [of "np_sum m / np_sum (map_array (\<lambda>v. v * v) g')"]
    by (simp add: rl_alpha_def g'(1) bound_def m Let_def)
  moreover obtain r where "clamp_unit (np_sum m / np_sum (map_array (\<lambda>v. v * v) g')) = Fin r"
    by (cases "np_sum m / np_sum (map_array (\<lambda>v. v * v) g')") (simp_all add: clamp_unit_def)
  ultimately show ?thesis by simp
qed

lemma clamped_finite_nonneg:
  assumes "list_all isfinite (flat (map_array (\<lambda>v. if fl_lt v (Fin 0) then Fin 0 else v) a))"
  shows "list_all (\<lambda>v. fl_le (Fin 0) v)
    (flat (map_array (\<lambda>v. if fl_lt v (Fin 0) then Fin 0 else v) a))"
proof -
  define c where "c = (\<lambda>v. if fl_lt v (Fin 0) then Fin 0 else v)"
  have pos: "isfinite (c v) \<Longrightarrow> fl_le (Fin 0) (c v)" for v
    by (cases v) (auto simp: c_def)
  have fl: "flat (map_array c a) = map c (flat a)" by (simp add: map_array_def)
  show ?thesis
    using assms pos unfolding c_def [symmetric] fl list_all_iff by auto
qed

lemma rl_step_returns:
  assumes v: "vanilla_step B img otf (y_t st) = Inr u"
    and s: "shape u = shape (y_t st)" and f: "list_all isfinite (flat u)"
    and inv: "i = 0 \<or> h2_t st = Some (Scalar (Fin 0))"
    and ginv: "i \<le> 1 \<or> (\<exists>g'. g_tm1 st = Some g' \<and> shape g' = shape (y_t st))"
  shows "\<exists>st'. rl_step B img otf 0 i st = Inr st' \<and> y_t st' = u \<and> u_t st' = Some u
    \<and> h2_t st' = Some (Scalar (Fin 0))
    \<and> (\<exists>g. g_tm1 st' = Some g \<and> shape g = shape u)"
proof -
  let ?clamp = "map_array (\<lambda>v. if fl_lt v (Fin 0) then Fin 0 else v)"
  from v obtain fy prod1 reblur im_ratio fr prod2 estimate raw where
    c: "urfftn B (y_t st) = Inr fy" "binop cmul otf fy = Inr prod1"
      "uirfftn B prod1 = Inr reblur" "binop (/) img reblur = Inr im_ratio"
      "urfftn B im_ratio = Inr fr" "binop cmul (map_array cconj otf) fr = Inr prod2"
      "uirfftn B prod2 = Inr estimate" "binop (*) (y_t st) estimate = Inr raw"
    and u: "u = ?clamp raw"
    unfolding vanilla_step_def bind_Inr_iff by auto
  obtain g where g: "binop (-) u (y_t st) = Inr g" "shape g = shape u"
    using binop_shape [of u "y_t st" "(-)"] s by auto
  have "i \<le> 1 \<or> (\<exists>g'. g_tm1 st = Some g' \<and> shape g' = shape g)"
    using ginv g(2) s by auto
  then obtain r where al: "rl_alpha i g (g_tm1 st) = Inr (Fin r)"
    using rl_alpha_returns by blast
  have al0: "i = 0 \<Longrightarrow> r = 0" using al by (simp add: rl_alpha_def)
  have h: "rl_predict 0 (Fin r) u (u_t st) (u_tm1 st) (h2_t st)
      = Inr (Some (Scalar (Fin 0)), Some (Scalar (Fin 0)))"
    using inv al0 by (auto simp: rl_predict_def)
  have y0: "map_array (\<lambda>v. v + Fin 0) u = u" by (rule map_array_id) (rule add_zero_fl)
  have pos: "enusure_positive u (Fin 0) = Inr u"
    using f by (simp add: enusure_positive_def u clamp_idem)
  have nn: "list_all (\<lambda>v. fl_le (Fin 0) v) (flat u)"
    using f unfolding u by (rule clamped_finite_nonneg)
  have "rl_step B img otf 0 i st
      = Inr \<lparr>u_tm2 = u_tm1 st, u_tm1 = u_t st, u_t = Some u,
             g_tm2 = g_tm1 st, g_tm1 = Some g,
             y_t = u, alpha = Fin r, h1_t = Some (Scalar (Fin 0)),
             h2_t = Some (Scalar (Fin 0))\<rparr>"
    unfolding rl_step_def
    by (simp add: c Let_def u [symmetric] g(1) al h bound_def y0 pos nn)
  then show ?thesis using g(2) by simp
qed

lemma vanilla_loop_Suc:
  "vanilla_loop B img otf (Suc n) y = Inr r \<longleftrightarrow>
     (\<exists>u. vanilla_step B img otf y = Inr u \<and> vanilla_loop B img otf n u = Inr r)"
  by (simp add: bind_Inr_iff)

lemma rl_loop_returns:
  assumes run: "\<forall>j. 0 < j \<and> j \<le> k \<longrightarrow>
      (\<exists>u. vanilla_loop B img otf j (y_t st) = Inr u \<and> shape u = shape (y_t st)
         \<and> list_all isfinite (flat u))"
    and inv: "i = 0 \<or> h2_t st = Some (Scalar (Fin 0))"
    and ginv: "i \<le> 1 \<or> (\<exists>g'. g_tm1 st = Some g' \<and> shape g' = shape (y_t st))"
  shows "\<exists>sk. rl_loop B img otf 0 k i st = Inr sk"
  using assms
proof (induction k arbitrary: i st)
  case 0
  then show ?case by simp
next
  case (Suc k)
  from Suc.prems(1) [rule_format, of 1] obtain u where
    u: "vanilla_step B img otf (y_t st) = Inr u" "shape u = shape (y_t st)"
      "list_all isfinite (flat u)"
    by (auto simp: bind_Inr_iff)
  from rl_step_returns [OF u Suc.prems(2,3)] obtain st' where
    st': "rl_step B img otf 0 i st = Inr st'" "y_t st' = u"
      "h2_t st' = Some (Scalar (Fin 0))"
      "\<exists>g. g_tm1 st' = Some g \<and> shape g = shape u"
    by blast
  have run': "\<forall>j. 0 < j \<and> j \<le> k \<longrightarrow>
      (\<exists>v. vanilla_loop B img otf j (y_t st') = Inr v \<and> shape v = shape (y_t st')
         \<and> list_all isfinite (flat v))"
  proof (intro allI impI)
    fix j assume j: "0 < j \<and> j \<le> k"
    with Suc.prems(1) [rule_format, of "Suc j"] obtain v where
      v: "vanilla_loop B img otf (Suc j) (y_t st) = Inr v" "shape v = shape (y_t st)"
        "list_all isfinite (flat v)" by auto
    from v(1) u(1) have "vanilla_loop B img otf j u = Inr v" by (simp add: vanilla_loop_Suc)
    then show "\<exists>v. vanilla_loop B img otf j (y_t st') = Inr v \<and> shape v = shape (y_t st')
         \<and> list_all isfinite (flat v)"
      using v(2,3) u(2) st'(2) by auto
  qed
  from Suc.IH [OF run', of "Suc i"] st'(2,3,4) obtain sk where
    "rl_loop B img otf 0 k (Suc i) st' = Inr sk" by auto
  then show ?case using st'(1) by simp
qed

lemma rl_step_finite:
  assumes "rl_step B img otf po i st = Inr st'"
  shows "list_all isfinite (flat (y_t st'))"
proof -
  from assms obtain y0 y1 where
    y: "enusure_positive y0 (Fin 0) = Inr y1" and st': "y_t st' = y1"
    unfolding rl_step_def bind_Inr_iff Let_def by (auto split: if_splits)
  define c where "c = (\<lambda>v. if fl_lt v (Fin 0) then Fin 0 else v)"
  have fin: "list_all isfinite (flat y0)" and y1: "y1 = map_array c y0"
    using y by (auto simp: enusure_positive_def c_def split: if_splits)
  have "isfinite (c v)" if "isfinite v" for v using that by (simp add: c_def)
  then show ?thesis using fin by (auto simp: st' y1 map_array_def list_all_iff)
qed

lemma rl_loop_finite:
  assumes "rl_loop B img otf po k 0 st = Inr sk" and "0 < k"
  shows "list_all isfinite (flat (y_t sk))"
proof -
  from assms(2) obtain j where "k = Suc j" by (cases k) auto
  with assms(1) rl_loop_last [of B img otf po j 0 st sk]
  obtain s where "rl_step B img otf po (0 + j) s = Inr sk" by auto
  then show ?thesis by (rule rl_step_finite)
qed

lemma rl_loop_every:
  assumes l: "rl_loop B img otf 0 n 0 (rl_init img) = Inr st" and k: "k \<le> n"
  shows "\<exists>sk. rl_loop B img otf 0 k 0 (rl_init img) = Inr sk
        \<and> vanilla_loop B img otf k img = Inr (y_t sk)
        \<and> (0 < k \<longrightarrow> u_t sk = Some (y_t sk) \<and> list_all isfinite (flat (y_t sk)))"
proof -
  have y0: "y_t (rl_init img) = img" by (simp add: rl_init_def)
  from k obtain m where "n = k + m" using le_Suc_ex by blast
  with l obtain sk where sk: "rl_loop B img otf 0 k 0 (rl_init img) = Inr sk"
    by (auto simp: rl_loop_split)
  from rl_loop_vanilla [OF sk] y0 rl_loop_finite [OF sk] show ?thesis using sk by auto
qed

lemma urfftn2_nans:
  "spec_urfftn \<lparr>shape = [2], flat = [NaN, NaN]\<rparr>
    = Inr \<lparr>shape = [2], flat = [(NaN, NaN), (NaN, NaN)]\<rparr>"
  by (simp add: spec_urfftn_def np_rfftn_def no_points_def half_shape_def bind_def tabulate_def
      upt2 dft_sum_def csum_def cmul_def of_fl_def twiddle_def item_def map_array_def
      minus_fl_def)

lemma vanilla_step_zero_pixel:
  "vanilla_step pyfftw_backend \<lparr>shape = [2], flat = [Fin 0, Fin 1]\<rparr>
      \<lparr>shape = [2], flat = [(Fin (1 / sqrt 2), Fin 0), (Fin (1 / sqrt 2), Fin 0)]\<rparr>
      \<lparr>shape = [2], flat = [Fin 0, Fin 1]\<rparr>
    = Inr \<lparr>shape = [2], flat = [NaN, NaN]\<rparr>"
proof -
  have u: "urfftn pyfftw_backend = spec_urfftn" "uirfftn pyfftw_backend = spec_uirfftn"
    by (simp_all add: pyfftw_backend_def)
  show ?thesis
    by (simp add: vanilla_step_def u urfftn2 binop2 cmul_def uirfftn2 minus_fl_def
        urfftn2_nan uirfftn2_nan cconj_def map_array_def)
qed

lemma vanilla_step_nans:
  "vanilla_step pyfftw_backend \<lparr>shape = [2], flat = [Fin 0, Fin 1]\<rparr>
      \<lparr>shape = [2], flat = [(Fin (1 / sqrt 2), Fin 0), (Fin (1 / sqrt 2), Fin 0)]\<rparr>
      \<lparr>shape = [2], flat = [NaN, NaN]\<rparr>
    = Inr \<lparr>shape = [2], flat = [NaN, NaN]\<rparr>"
proof -
  have u: "urfftn pyfftw_backend = spec_urfftn" "uirfftn pyfftw_backend = spec_uirfftn"
    by (simp_all add: pyfftw_backend_def)
  show ?thesis
    by (simp add: vanilla_step_def u binop2 cmul_def minus_fl_def
        urfftn2_nans uirfftn2_nan cconj_def map_array_def)
qed

section \<open>Runs on two by two data points\<close>

lemma vanilla_step22_1:
  "vanilla_step pyfftw_backend \<lparr>shape = [2, 2], flat = [Fin 1, Fin 2, Fin 2, Fin 1]\<rparr>
      \<lparr>shape = [2, 2], flat =
        [(Fin (1 / 2), Fin 0), (Fin (1 / 6), Fin 0), (Fin (1 / 6), Fin 0), (Fin (- 1 / 6), Fin 0)]\<rparr>
      \<lparr>shape = [2, 2], flat = [Fin 1, Fin 2, Fin 2, Fin 1]\<rparr>
    = Inr \<lparr>shape = [2, 2], flat = [Fin (6 / 5), Fin (9 / 5), Fin (9 / 5), Fin (6 / 5)]\<rparr>"
  by (simp add: vanilla_step_def pyfftw_backend_def urfftn22 uirfftn22 binop22 cmul_def
      cconj_def minus_fl_def map_array_def)

lemma vanilla_step22_2:
  "vanilla_step pyfftw_backend \<lparr>shape = [2, 2], flat = [Fin 1, Fin 2, Fin 2, Fin 1]\<rparr>
      \<lparr>shape = [2, 2], flat =
        [(Fin (1 / 2), Fin 0), (Fin (1 / 6), Fin 0), (Fin (1 / 6), Fin 0), (Fin (- 1 / 6), Fin 0)]\<rparr>
      \<lparr>shape = [2, 2], flat = [Fin (6 / 5), Fin (9 / 5), Fin (9 / 5), Fin (6 / 5)]\<rparr>
    = Inr \<lparr>shape = [2, 2], flat = [Fin (39 / 28), Fin (45 / 28), Fin (45 / 28), Fin (39 / 28)]\<rparr>"
  by (simp add: vanilla_step_def pyfftw_backend_def urfftn22 uirfftn22 binop22 cmul_def
      cconj_def minus_fl_def map_array_def)

lemma vanilla_step22_3:
  "vanilla_step pyfftw_backend \<lparr>shape = [2, 2], flat = [Fin 1, Fin 2, Fin 2, Fin 1]\<rparr>
      \<lparr>shape = [2, 2], flat =
        [(Fin (1 / 2), Fin 0), (Fin (1 / 6), Fin 0), (Fin (1 / 6), Fin 0), (Fin (- 1 / 6), Fin 0)]\<rparr>
      \<lparr>shape = [2, 2], flat = [Fin (39 / 28), Fin (45 / 28), Fin (45 / 28), Fin (39 / 28)]\<rparr>
    = Inr \<lparr>shape = [2, 2], flat =
        [Fin (2769 / 1763), Fin (2520 / 1763), Fin (2520 / 1763), Fin (2769 / 1763)]\<rparr>"
  by (simp add: vanilla_step_def pyfftw_backend_def urfftn22 uirfftn22 binop22 cmul_def
      cconj_def minus_fl_def map_array_def)

lemma vanilla_step22_4:
  "vanilla_step pyfftw_backend \<lparr>shape = [2, 2], flat = [Fin 1, Fin 2, Fin 2, Fin 1]\<rparr>
      \<lparr>shape = [2, 2], flat =
        [(Fin (1 / 2), Fin 0), (Fin (1 / 6), Fin 0), (Fin (1 / 6), Fin 0), (Fin (- 1 / 6), Fin 0)]\<rparr>
      \<lparr>shape = [2, 2], flat =
        [Fin (2769 / 1763), Fin (2520 / 1763), Fin (2520 / 1763), Fin (2769 / 1763)]\<rparr>
    = Inr \<lparr>shape = [2, 2], flat =
        [Fin (6044727 / 3495829), Fin (4442760 / 3495829), Fin (4442760 / 3495829),
         Fin (6044727 / 3495829)]\<rparr>"
  by (simp add: vanilla_step_def pyfftw_backend_def urfftn22 uirfftn22 binop22 cmul_def
      cconj_def minus_fl_def map_array_def)

lemma rl_run22_order0:
  "(case rl_loop pyfftw_backend \<lparr>shape = [2, 2], flat = [Fin 1, Fin 2, Fin 2, Fin 1]\<rparr>
      \<lparr>shape = [2, 2], flat =
        [(Fin (1 / 2), Fin 0), (Fin (1 / 6), Fin 0), (Fin (1 / 6), Fin 0), (Fin (- 1 / 6), Fin 0)]\<rparr>
      0 (Suc (Suc (Suc 0))) 0 (rl_init \<lparr>shape = [2, 2], flat = [Fin 1, Fin 2, Fin 2, Fin 1]\<rparr>) of
      Inl e \<Rightarrow> False
    | Inr s \<Rightarrow>
        alpha s = Fin (1625 / 1763)
      \<and> y_t s = \<lparr>shape = [2, 2], flat =
          [Fin (2769 / 1763), Fin (2520 / 1763), Fin (2520 / 1763), Fin (2769 / 1763)]\<rparr>
      \<and> u_t s = Some \<lparr>shape = [2, 2], flat =
          [Fin (2769 / 1763), Fin (2520 / 1763), Fin (2520 / 1763), Fin (2769 / 1763)]\<rparr>)"
  by (simp add: rl_step_def rl_init_def pyfftw_backend_def urfftn22 uirfftn22
      binop22 cmul_def cconj_def minus_fl_def map_array_def rl_alpha_def rl_predict_def
      bound_def enusure_positive_def np_sum_def py_min_def py_max_def Let_def)

lemma rl_run22_order2:
  "(case rl_loop pyfftw_backend \<lparr>shape = [2, 2], flat = [Fin 1, Fin 2, Fin 2, Fin 1]\<rparr>
      \<lparr>shape = [2, 2], flat =
        [(Fin (1 / 2), Fin 0), (Fin (1 / 6), Fin 0), (Fin (1 / 6), Fin 0), (Fin (- 1 / 6), Fin 0)]\<rparr>
      2 (Suc (Suc (Suc (Suc 0)))) 0 (rl_init \<lparr>shape = [2, 2], flat = [Fin 1, Fin 2, Fin 2, Fin 1]\<rparr>) of
      Inl e \<Rightarrow> False
    | Inr s \<Rightarrow>
        u_t s = Some \<lparr>shape = [2, 2], flat =
          [Fin (503106884675898056151 / 269550134991100070177),
           Fin (305543520297402154380 / 269550134991100070177),
           Fin (305543520297402154380 / 269550134991100070177),
           Fin (503106884675898056151 / 269550134991100070177)]\<rparr>)"
  by (simp add: rl_step_def rl_init_def pyfftw_backend_def urfftn22 uirfftn22
      binop22 cmul_def cconj_def minus_fl_def map_array_def rl_alpha_def rl_predict_def
      bound_def enusure_positive_def np_sum_def py_min_def py_max_def Let_def)

section \<open>Dimension mismatch\<close>

text \<open>
  C5: \<open>richardson_lucy\<close> fails with its dimension-mismatch assertion whenever the image and
  the PSF differ in their number of dimensions, and \<open>fftconvolve\<close> fails with its
  dimension-mismatch \<^verbatim>\<open>ValueError\<close> whenever its two operands do. The error is the result
  of the call whatever the transforms, the other arguments and the contents of the arrays
  are: nothing is computed before it and nothing recovers from it.
\<close>

theorem C5_dimension_mismatch:
  assumes "ndim psf \<noteq> ndim img" and "ndim in1 \<noteq> ndim in2"
  shows "richardson_lucy B img psf iterations clip prediction_order win_func
      = Inl (AssertionError ''image and psf do not have the same number of dimensions'')
    \<and> fftconvolve B in1 in2 mode threads window
      = Inl (ValueError ''in1 and in2 should have the same dimensionality'')"
  using assms by (simp add: richardson_lucy_def fftconvolve_def)

text \<open>
  C5 at a two-dimensional image with a one-dimensional PSF, and at a one-dimensional and a
  two-dimensional operand.
\<close>

theorem C5_dimension_mismatch_witness:
  "ndim \<lparr>shape = [2], flat = [Fin 0, Fin 1]\<rparr>
      \<noteq> ndim \<lparr>shape = [1, 2], flat = [Fin 3, Fin 4]\<rparr>
   \<and> richardson_lucy pyfftw_backend \<lparr>shape = [1, 2], flat = [Fin 3, Fin 4]\<rparr>
        \<lparr>shape = [2], flat = [Fin 0, Fin 1]\<rparr> 10 False 2 None
      = Inl (AssertionError ''image and psf do not have the same number of dimensions'')
   \<and> fftconvolve pyfftw_backend \<lparr>shape = [2], flat = [Fin 0, Fin 1]\<rparr>
        \<lparr>shape = [1, 2], flat = [Fin 3, Fin 4]\<rparr> ''full'' 1 np_ones
      = Inl (ValueError ''in1 and in2 should have the same dimensionality'')"
proof -
  let ?a = "\<lparr>shape = [2], flat = [Fin 0, Fin 1]\<rparr> :: fl ndarray"
  let ?b = "\<lparr>shape = [1, 2], flat = [Fin 3, Fin 4]\<rparr> :: fl ndarray"
  have ne: "ndim ?a \<noteq> ndim ?b" by (simp add: ndim_def)
  show ?thesis
    using ne C5_dimension_mismatch [OF ne ne, of pyfftw_backend 10 False 2 None "''full''" 1 np_ones]
    by simp
qed

section \<open>Normalisation of the point spread function\<close>

text \<open>
  C1, as stated, has the PSF padded with its median. For the PSF \<open>[0, 1, 2]\<close> and an image
  of five pixels the code pads the scaled PSF \<open>[0, 1/2, 1]\<close> with zeros and normalises it to
  \<open>[0, 0, 1/3, 2/3, 0]\<close>; the padding with the median \<open>1/2\<close> would give
  \<open>[1/5, 0, 1/5, 2/5, 1/5]\<close>.
\<close>

theorem C1_median_fill_counterexample:
  "psf_normalize \<lparr>shape = [5], flat = [Fin 1, Fin 1, Fin 1, Fin 1, Fin 1]\<rparr>
      \<lparr>shape = [3], flat = [Fin 0, Fin 1, Fin 2]\<rparr>
    = Inr \<lparr>shape = [5], flat = [Fin 0, Fin 0, Fin (1 / 3), Fin (2 / 3), Fin 0]\<rparr>
   \<and> psf_normalize_median_spec \<lparr>shape = [5], flat = [Fin 1, Fin 1, Fin 1, Fin 1, Fin 1]\<rparr>
      \<lparr>shape = [3], flat = [Fin 0, Fin 1, Fin 2]\<rparr>
    = Inr \<lparr>shape = [5], flat = [Fin (1 / 5), Fin 0, Fin (1 / 5), Fin (2 / 5), Fin (1 / 5)]\<rparr>
   \<and> psf_normalize \<lparr>shape = [5], flat = [Fin 1, Fin 1, Fin 1, Fin 1, Fin 1]\<rparr>
      \<lparr>shape = [3], flat = [Fin 0, Fin 1, Fin 2]\<rparr>
    \<noteq> psf_normalize_median_spec \<lparr>shape = [5], flat = [Fin 1, Fin 1, Fin 1, Fin 1, Fin 1]\<rparr>
      \<lparr>shape = [3], flat = [Fin 0, Fin 1, Fin 2]\<rparr>"
  by (simp add: psf_normalize_def psf_normalize_median_spec_def scale_012 padding_3_5
      pad_constant_3_5 pad_median_3_5 np_sum_def map_array_def)

text \<open>
  C1, amended: in \<open>richardson_lucy\<close> the PSF (finite values, not all equal, with a range
  that does not overflow: the difference of any two of its values is finite; along no axis
  larger than the image) is normalised by min-max rescaling to \<open>[0, 1]\<close>, then padding to
  the image's shape with zeros (\<^verbatim>\<open>mode='constant'\<close>: every cell outside the block that
  holds the scaled PSF is 0, the block starts \<open>pad_before\<close> cells in), and finally dividing
  by the sum, so that the padded PSF has the image's shape and sums to 1.
\<close>

theorem C1_psf_normalisation:
  assumes wf: "wf_array psf" and fin: "list_all isfinite (flat psf)"
    and two: "\<exists>x \<in> set (flat psf). \<exists>y \<in> set (flat psf). x \<noteq> y"
    and rng: "\<forall>x \<in> set (flat psf). \<forall>y \<in> set (flat psf). isfinite (overflow (x - y))"
    and le: "list_all2 (\<le>) (shape psf) (shape img)"
  shows "\<exists>scaled padded normed.
      scale psf = Inr scaled
    \<and> list_all (\<lambda>v. fl_le (Fin 0) v \<and> fl_le v (Fin 1)) (flat scaled)
    \<and> fft_pad scaled (PadSeq (map (\<lambda>n. Some (int n)) (shape img))) Constant = Inr padded
    \<and> shape padded = shape img
    \<and> (\<forall>idx \<in> set (indices (shape img)).
          item padded idx =
            (if inside (map fst (pad_amounts (shape psf) (shape img))) (shape psf) idx
             then item scaled (map (\<lambda>(i, b). i - b)
                    (zip idx (map fst (pad_amounts (shape psf) (shape img)))))
             else Fin 0))
    \<and> psf_normalize img psf = Inr normed
    \<and> normed = map_array (\<lambda>v. v / np_sum padded) padded
    \<and> shape normed = shape img
    \<and> np_sum normed = Fin 1"
proof -
  let ?sp = "shape psf" and ?s = "shape img"
  let ?pads = "pad_amounts ?sp ?s"
  obtain qs where sc: "scale psf = Inr \<lparr>shape = ?sp, flat = map Fin qs\<rparr>"
    and lq: "length qs = length (flat psf)"
    and rng: "\<forall>q \<in> set qs. 0 \<le> q \<and> q \<le> 1" and one: "1 \<in> set qs"
    using scale_unit_range [OF fin two rng] by blast
  let ?scaled = "\<lparr>shape = ?sp, flat = map Fin qs\<rparr> :: fl ndarray"
  have wq: "length qs = prod_list ?sp" using wf lq by (simp add: wf_array_def)
  have ne: "?sp \<noteq> []"
  proof
    assume "?sp = []"
    then have "length (flat psf) = 1" using wf by (simp add: wf_array_def)
    then obtain v where "flat psf = [v]" by (cases "flat psf") auto
    with two show False by simp
  qed
  have pad: "fft_pad ?scaled (PadSeq (map (\<lambda>n. Some (int n)) ?s)) Constant
      = Inr (pad_constant ?pads ?scaled)"
    using le ne by (intro fft_pad_constant) simp_all
  obtain ps where P: "pad_constant ?pads ?scaled = \<lparr>shape = ?s, flat = map Fin ps\<rparr>"
    and prng: "\<forall>p \<in> set ps. 0 \<le> p \<and> p \<le> 1" and pone: "1 \<in> set ps"
    using pad_constant_Fin [OF wq le rng one] by blast
  let ?padded = "pad_constant ?pads ?scaled"
  have items: "item ?padded idx =
      (if inside (map fst ?pads) ?sp idx
       then item ?scaled (map (\<lambda>(i, b). i - b) (zip idx (map fst ?pads))) else Fin 0)"
    if "idx \<in> set (indices ?s)" for idx
    using that
    by (simp add: pad_constant_def padded_shape_amounts [OF le] item_tabulate set_indices)
  have pnn: "\<forall>p \<in> set ps. 0 \<le> p" using prng by simp
  have norm: "psf_normalize img psf = Inr (map_array (\<lambda>v. v / np_sum ?padded) ?padded)"
    by (simp add: psf_normalize_def sc pad)
  have n1: "np_sum (map_array (\<lambda>v. v / np_sum ?padded) ?padded) = Fin 1"
    unfolding P using normalise_sum [OF pnn pone, of ?s] by simp
  have r01: "list_all (\<lambda>v. fl_le (Fin 0) v \<and> fl_le v (Fin 1)) (flat ?scaled)"
    using rng by (simp add: list_all_iff)
  have shp: "shape ?padded = ?s" by (simp add: P)
  show ?thesis
    using sc r01 pad shp items norm n1
    by (intro exI [of _ ?scaled] exI [of _ ?padded]
        exI [of _ "map_array (\<lambda>v. v / np_sum ?padded) ?padded"]) simp
qed

text \<open>The amended C1 at the PSF \<open>[0, 1, 2]\<close> and an image of five pixels.\<close>

theorem C1_psf_normalisation_witness:
  "psf_normalize \<lparr>shape = [5], flat = [Fin 1, Fin 1, Fin 1, Fin 1, Fin 1]\<rparr>
      \<lparr>shape = [3], flat = [Fin 0, Fin 1, Fin 2]\<rparr>
    = Inr \<lparr>shape = [5], flat = [Fin 0, Fin 0, Fin (1 / 3), Fin (2 / 3), Fin 0]\<rparr>
   \<and> np_sum \<lparr>shape = [5], flat = [Fin 0, Fin 0, Fin (1 / 3), Fin (2 / 3), Fin 0]\<rparr> = Fin 1"
proof -
  let ?img = "\<lparr>shape = [5], flat = [Fin 1, Fin 1, Fin 1, Fin 1, Fin 1]\<rparr> :: fl ndarray"
  let ?psf = "\<lparr>shape = [3], flat = [Fin 0, Fin 1, Fin 2]\<rparr> :: fl ndarray"
  have 1: "wf_array ?psf" by (simp add: wf_array_def)
  have 2: "list_all isfinite (flat ?psf)" by simp
  have 3: "\<exists>x \<in> set (flat ?psf). \<exists>y \<in> set (flat ?psf). x \<noteq> y"
    by (intro bexI [of _ "Fin 0"] bexI [of _ "Fin 1"]) simp_all
  have 4: "list_all2 (\<le>) (shape ?psf) (shape ?img)" by simp
  have 5: "\<forall>x \<in> set (flat ?psf). \<forall>y \<in> set (flat ?psf). isfinite (overflow (x - y))"
    by (simp add: minus_fl_def overflow_small)
  from C1_psf_normalisation [OF 1 2 3 5 4]
  obtain normed where n: "psf_normalize ?img ?psf = Inr normed" "np_sum normed = Fin 1"
    by blast
  have "psf_normalize ?img ?psf
      = Inr \<lparr>shape = [5], flat = [Fin 0, Fin 0, Fin (1 / 3), Fin (2 / 3), Fin 0]\<rparr>"
    by (simp add: psf_normalize_def scale_012 padding_3_5 pad_constant_3_5 np_sum_def
        map_array_def)
  with n show ?thesis by simp
qed

section \<open>Prediction order zero\<close>

text \<open>
  C2, as stated, has \<open>richardson_lucy\<close> with \<open>prediction_order = 0\<close> produce the estimates
  of the unaccelerated iteration for every image. The code asserts after every pass that the
  predicted image is finite. With the transforms of \<open>pyfftw_backend\<close>, the image \<open>[0, 1]\<close>,
  the PSF \<open>[0, 1]\<close> and two iterations, the unguarded ratio is \<open>0/0\<close> at the first pixel:
  the unaccelerated update gives the estimate \<open>[nan, nan]\<close> after one pass and after two,
  and the call raises in the first pass and produces no estimate.
\<close>

theorem C2_nonfinite_estimate_counterexample:
  "richardson_lucy pyfftw_backend \<lparr>shape = [2], flat = [Fin 0, Fin 1]\<rparr>
      \<lparr>shape = [2], flat = [Fin 0, Fin 1]\<rparr> 2 False 0 None
    = Inl (AssertionError ''The array has NaNs'')
  \<and> rl_otf pyfftw_backend (Scalar (Fin 1)) \<lparr>shape = [2], flat = [Fin 0, Fin 1]\<rparr>
    = Inr \<lparr>shape = [2], flat = [(Fin (1 / sqrt 2), Fin 0), (Fin (1 / sqrt 2), Fin 0)]\<rparr>
  \<and> vanilla_loop pyfftw_backend \<lparr>shape = [2], flat = [Fin 0, Fin 1]\<rparr>
      \<lparr>shape = [2], flat = [(Fin (1 / sqrt 2), Fin 0), (Fin (1 / sqrt 2), Fin 0)]\<rparr>
      (Suc 0) \<lparr>shape = [2], flat = [Fin 0, Fin 1]\<rparr>
    = Inr \<lparr>shape = [2], flat = [NaN, NaN]\<rparr>
  \<and> vanilla_loop pyfftw_backend \<lparr>shape = [2], flat = [Fin 0, Fin 1]\<rparr>
      \<lparr>shape = [2], flat = [(Fin (1 / sqrt 2), Fin 0), (Fin (1 / sqrt 2), Fin 0)]\<rparr>
      (Suc (Suc 0)) \<lparr>shape = [2], flat = [Fin 0, Fin 1]\<rparr>
    = Inr \<lparr>shape = [2], flat = [NaN, NaN]\<rparr>"
proof -
  have two: "nat 2 = Suc (Suc 0)" by simp
  have "richardson_lucy pyfftw_backend \<lparr>shape = [2], flat = [Fin 0, Fin 1]\<rparr>
      \<lparr>shape = [2], flat = [Fin 0, Fin 1]\<rparr> 2 False 0 None
    = Inl (AssertionError ''The array has NaNs'')"
    unfolding richardson_lucy_def two
    by (simp add: ndim_def rl_window_def psf_normalize2 rl_otf2 rl_step_zero_pixel)
  then show ?thesis
    by (simp add: rl_otf2 vanilla_step_zero_pixel vanilla_step_nans)
qed

text \<open>
  C2, amended: for every image, PSF, window and binding of the transforms for which the
  normalised PSF and the OTF can be computed, and every positive iteration count: if the
  unaccelerated Richardson-Lucy iteration gives, after every number of passes up to the
  requested one, a finite estimate of the image's shape, then \<open>richardson_lucy\<close> with
  \<open>prediction_order = 0\<close> returns the last of these estimates (clipped if asked for), and
  after every number \<open>k\<close> of passes the loop's predicted image \<open>y_t\<close> is the result of
  \<open>k\<close> unaccelerated updates of the image and (once a pass has run) is the current
  estimate \<open>u_t\<close>. Conversely, whenever the call returns, the same holds and every one of
  these estimates is finite.
\<close>

theorem C2_prediction_order_zero:
  "(ndim psf = ndim img \<and> rl_window img win_func = Inr window
        \<and> psf_normalize img psf = Inr psf_norm \<and> rl_otf B window psf_norm = Inr otf
        \<and> 0 < iterations
        \<and> (\<forall>k. 0 < k \<and> k \<le> nat iterations \<longrightarrow>
              (\<exists>u. vanilla_loop B img otf k img = Inr u \<and> shape u = shape img
                 \<and> list_all isfinite (flat u)))
      \<longrightarrow> (\<exists>u. vanilla_loop B img otf (nat iterations) img = Inr u
            \<and> richardson_lucy B img psf iterations clip 0 win_func
              = Inr (Some (if clip then rl_clip u else u)))
          \<and> (\<forall>k \<le> nat iterations. \<exists>sk.
                rl_loop B img otf 0 k 0 (rl_init img) = Inr sk
              \<and> vanilla_loop B img otf k img = Inr (y_t sk)
              \<and> (0 < k \<longrightarrow> u_t sk = Some (y_t sk))))
   \<and> (richardson_lucy B img psf iterations clip 0 win_func = Inr res \<longrightarrow>
      (\<exists>window psf_norm otf.
          rl_window img win_func = Inr window \<and> psf_normalize img psf = Inr psf_norm
        \<and> rl_otf B window psf_norm = Inr otf
        \<and> (\<forall>k \<le> nat iterations. \<exists>sk.
              rl_loop B img otf 0 k 0 (rl_init img) = Inr sk
            \<and> vanilla_loop B img otf k img = Inr (y_t sk)
            \<and> (0 < k \<longrightarrow> u_t sk = Some (y_t sk) \<and> list_all isfinite (flat (y_t sk))))
        \<and> (0 < iterations \<longrightarrow>
              (\<exists>u. vanilla_loop B img otf (nat iterations) img = Inr u
                 \<and> res = Some (if clip then rl_clip u else u)))))"
proof (intro conjI impI)
  assume a: "ndim psf = ndim img \<and> rl_window img win_func = Inr window
        \<and> psf_normalize img psf = Inr psf_norm \<and> rl_otf B window psf_norm = Inr otf
        \<and> 0 < iterations
        \<and> (\<forall>k. 0 < k \<and> k \<le> nat iterations \<longrightarrow>
              (\<exists>u. vanilla_loop B img otf k img = Inr u \<and> shape u = shape img
                 \<and> list_all isfinite (flat u)))"
  have y0: "y_t (rl_init img) = img" by (simp add: rl_init_def)
  from a have run: "\<forall>k. 0 < k \<and> k \<le> nat iterations \<longrightarrow>
      (\<exists>u. vanilla_loop B img otf k (y_t (rl_init img)) = Inr u
         \<and> shape u = shape (y_t (rl_init img)) \<and> list_all isfinite (flat u))"
    unfolding y0 by blast
  from rl_loop_returns [OF run, of 0] obtain st where
    l: "rl_loop B img otf 0 (nat iterations) 0 (rl_init img) = Inr st" by auto
  from rl_loop_vanilla [OF l] y0 a
  have v: "vanilla_loop B img otf (nat iterations) img = Inr (y_t st)"
    and u: "u_t st = Some (y_t st)" by auto
  have "richardson_lucy B img psf iterations clip 0 win_func
      = Inr (Some (if clip then rl_clip (y_t st) else y_t st))"
    using a l u by (simp add: richardson_lucy_def bound_def)
  with v show "\<exists>u. vanilla_loop B img otf (nat iterations) img = Inr u
            \<and> richardson_lucy B img psf iterations clip 0 win_func
              = Inr (Some (if clip then rl_clip u else u))"
    by blast
  show "\<forall>k \<le> nat iterations. \<exists>sk.
                rl_loop B img otf 0 k 0 (rl_init img) = Inr sk
              \<and> vanilla_loop B img otf k img = Inr (y_t sk)
              \<and> (0 < k \<longrightarrow> u_t sk = Some (y_t sk))"
    using rl_loop_every [OF l] by blast
next
  assume ret: "richardson_lucy B img psf iterations clip 0 win_func = Inr res"
  from ret obtain window psf_norm otf st where
    w: "rl_window img win_func = Inr window" and p: "psf_normalize img psf = Inr psf_norm"
    and o: "rl_otf B window psf_norm = Inr otf"
    and l: "rl_loop B img otf 0 (nat iterations) 0 (rl_init img) = Inr st"
    and r: "(if clip then bind (bound (u_t st)) (\<lambda>u. Inr (Some (rl_clip u))) else Inr (u_t st))
        = Inr res"
    by (auto simp: richardson_lucy_def bind_Inr_iff split: if_splits)
  have y0: "y_t (rl_init img) = img" by (simp add: rl_init_def)
  have final: "\<exists>u. vanilla_loop B img otf (nat iterations) img = Inr u
      \<and> res = Some (if clip then rl_clip u else u)" if "0 < iterations"
  proof -
    from rl_loop_vanilla [OF l] y0 that
    have v: "vanilla_loop B img otf (nat iterations) img = Inr (y_t st)"
      and u: "u_t st = Some (y_t st)" by auto
    from r u have "res = Some (if clip then rl_clip (y_t st) else y_t st)"
      by (auto simp: bound_def split: if_splits)
    with v show ?thesis by blast
  qed
  from w p o rl_loop_every [OF l] final
  show "\<exists>window psf_norm otf.
          rl_window img win_func = Inr window \<and> psf_normalize img psf = Inr psf_norm
        \<and> rl_otf B window psf_norm = Inr otf
        \<and> (\<forall>k \<le> nat iterations. \<exists>sk.
              rl_loop B img otf 0 k 0 (rl_init img) = Inr sk
            \<and> vanilla_loop B img otf k img = Inr (y_t sk)
            \<and> (0 < k \<longrightarrow> u_t sk = Some (y_t sk) \<and> list_all isfinite (flat (y_t sk))))
        \<and> (0 < iterations \<longrightarrow>
              (\<exists>u. vanilla_loop B img otf (nat iterations) img = Inr u
                 \<and> res = Some (if clip then rl_clip u else u)))"
    by blast
qed

text \<open>
  The amended C2 with the transforms of \<open>pyfftw_backend\<close>, the image \<open>[[1, 2], [2, 1]]\<close>,
  the PSF \<open>[[0, 1], [1, 1]]\<close> and four iterations. The estimate changes in every pass, the
  coefficient of the third pass is \<open>1625/1763\<close>, and the call returns the result of four
  unaccelerated updates; with \<open>prediction_order = 2\<close> the same call returns another
  array.
\<close>

theorem C2_prediction_order_zero_witness:
  "richardson_lucy pyfftw_backend \<lparr>shape = [2, 2], flat = [Fin 1, Fin 2, Fin 2, Fin 1]\<rparr>
      \<lparr>shape = [2, 2], flat = [Fin 0, Fin 1, Fin 1, Fin 1]\<rparr> 4 False 0 None
    = Inr (Some \<lparr>shape = [2, 2], flat =
        [Fin (6044727 / 3495829), Fin (4442760 / 3495829), Fin (4442760 / 3495829),
         Fin (6044727 / 3495829)]\<rparr>)
  \<and> vanilla_loop pyfftw_backend \<lparr>shape = [2, 2], flat = [Fin 1, Fin 2, Fin 2, Fin 1]\<rparr>
      \<lparr>shape = [2, 2], flat =
        [(Fin (1 / 2), Fin 0), (Fin (1 / 6), Fin 0), (Fin (1 / 6), Fin 0), (Fin (- 1 / 6), Fin 0)]\<rparr>
      (Suc (Suc (Suc (Suc 0)))) \<lparr>shape = [2, 2], flat = [Fin 1, Fin 2, Fin 2, Fin 1]\<rparr>
    = Inr \<lparr>shape = [2, 2], flat =
        [Fin (6044727 / 3495829), Fin (4442760 / 3495829), Fin (4442760 / 3495829),
         Fin (6044727 / 3495829)]\<rparr>
  \<and> (case rl_loop pyfftw_backend \<lparr>shape = [2, 2], flat = [Fin 1, Fin 2, Fin 2, Fin 1]\<rparr>
      \<lparr>shape = [2, 2], flat =
        [(Fin (1 / 2), Fin 0), (Fin (1 / 6), Fin 0), (Fin (1 / 6), Fin 0), (Fin (- 1 / 6), Fin 0)]\<rparr>
      0 (Suc (Suc (Suc 0))) 0 (rl_init \<lparr>shape = [2, 2], flat = [Fin 1, Fin 2, Fin 2, Fin 1]\<rparr>) of
      Inl e \<Rightarrow> False
    | Inr s \<Rightarrow>
        alpha s = Fin (1625 / 1763)
      \<and> y_t s = \<lparr>shape = [2, 2], flat =
          [Fin (2769 / 1763), Fin (2520 / 1763), Fin (2520 / 1763), Fin (2769 / 1763)]\<rparr>
      \<and> u_t s = Some \<lparr>shape = [2, 2], flat =
          [Fin (2769 / 1763), Fin (2520 / 1763), Fin (2520 / 1763), Fin (2769 / 1763)]\<rparr>)
  \<and> richardson_lucy pyfftw_backend \<lparr>shape = [2, 2], flat = [Fin 1, Fin 2, Fin 2, Fin 1]\<rparr>
      \<lparr>shape = [2, 2], flat = [Fin 0, Fin 1, Fin 1, Fin 1]\<rparr> 4 False 2 None
    = Inr (Some \<lparr>shape = [2, 2], flat =
          [Fin (503106884675898056151 / 269550134991100070177),
           Fin (305543520297402154380 / 269550134991100070177),
           Fin (305543520297402154380 / 269550134991100070177),
           Fin (503106884675898056151 / 269550134991100070177)]\<rparr>)"
proof -
  let ?img = "\<lparr>shape = [2, 2], flat = [Fin 1, Fin 2, Fin 2, Fin 1]\<rparr> :: fl ndarray"
  let ?psf = "\<lparr>shape = [2, 2], flat = [Fin 0, Fin 1, Fin 1, Fin 1]\<rparr> :: fl ndarray"
  let ?pn = "\<lparr>shape = [2, 2], flat = [Fin 0, Fin (1 / 3), Fin (1 / 3), Fin (1 / 3)]\<rparr> :: fl ndarray"
  let ?otf = "\<lparr>shape = [2, 2], flat =
        [(Fin (1 / 2), Fin 0), (Fin (1 / 6), Fin 0), (Fin (1 / 6), Fin 0), (Fin (- 1 / 6), Fin 0)]\<rparr>
        :: cfl ndarray"
  let ?v1 = "\<lparr>shape = [2, 2], flat = [Fin (6 / 5), Fin (9 / 5), Fin (9 / 5), Fin (6 / 5)]\<rparr> :: fl ndarray"
  let ?v2 = "\<lparr>shape = [2, 2], flat = [Fin (39 / 28), Fin (45 / 28), Fin (45 / 28), Fin (39 / 28)]\<rparr> :: fl ndarray"
  let ?v3 = "\<lparr>shape = [2, 2], flat =
        [Fin (2769 / 1763), Fin (2520 / 1763), Fin (2520 / 1763), Fin (2769 / 1763)]\<rparr> :: fl ndarray"
  let ?v4 = "\<lparr>shape = [2, 2], flat =
        [Fin (6044727 / 3495829), Fin (4442760 / 3495829), Fin (4442760 / 3495829),
         Fin (6044727 / 3495829)]\<rparr> :: fl ndarray"
  have n4: "nat 4 = Suc (Suc (Suc (Suc 0)))" by simp
  have l1: "vanilla_loop pyfftw_backend ?img ?otf (Suc 0) ?img = Inr ?v1"
    using vanilla_step22_1 by simp
  have l2: "vanilla_loop pyfftw_backend ?img ?otf (Suc (Suc 0)) ?img = Inr ?v2"
    using vanilla_step22_1 vanilla_step22_2 by simp
  have l3: "vanilla_loop pyfftw_backend ?img ?otf (Suc (Suc (Suc 0))) ?img = Inr ?v3"
    using vanilla_step22_1 vanilla_step22_2 vanilla_step22_3 by simp
  have l4: "vanilla_loop pyfftw_backend ?img ?otf (Suc (Suc (Suc (Suc 0)))) ?img = Inr ?v4"
    using vanilla_step22_1 vanilla_step22_2 vanilla_step22_3 vanilla_step22_4 by simp
  have every: "\<exists>u. vanilla_loop pyfftw_backend ?img ?otf k ?img = Inr u \<and> shape u = shape ?img
      \<and> list_all isfinite (flat u)" if "0 < k \<and> k \<le> nat 4" for k
  proof -
    from that have "k = Suc 0 \<or> k = Suc (Suc 0) \<or> k = Suc (Suc (Suc 0))
        \<or> k = Suc (Suc (Suc (Suc 0)))" by (simp add: n4) arith
    then show ?thesis using l1 l2 l3 l4 by (elim disjE) simp_all
  qed
  have hyp: "ndim ?psf = ndim ?img \<and> rl_window ?img None = Inr (Scalar (Fin 1))
        \<and> psf_normalize ?img ?psf = Inr ?pn \<and> rl_otf pyfftw_backend (Scalar (Fin 1)) ?pn = Inr ?otf
        \<and> 0 < (4::int)
        \<and> (\<forall>k. 0 < k \<and> k \<le> nat 4 \<longrightarrow>
              (\<exists>u. vanilla_loop pyfftw_backend ?img ?otf k ?img = Inr u \<and> shape u = shape ?img
                 \<and> list_all isfinite (flat u)))"
    using every by (simp add: ndim_def rl_window_def psf_normalize22 rl_otf22)
  from C2_prediction_order_zero
    [of ?psf ?img None "Scalar (Fin 1)" ?pn pyfftw_backend ?otf 4 False, THEN conjunct1, rule_format, OF hyp]
  obtain u where u: "vanilla_loop pyfftw_backend ?img ?otf (nat 4) ?img = Inr u"
    "richardson_lucy pyfftw_backend ?img ?psf 4 False 0 None = Inr (Some u)"
    by auto
  from u(1) l4 have "u = ?v4" by (simp only: n4) simp
  with u(2) have first: "richardson_lucy pyfftw_backend ?img ?psf 4 False 0 None = Inr (Some ?v4)"
    by simp
  have last: "richardson_lucy pyfftw_backend ?img ?psf 4 False 2 None
      = Inr (Some \<lparr>shape = [2, 2], flat =
          [Fin (503106884675898056151 / 269550134991100070177),
           Fin (305543520297402154380 / 269550134991100070177),
           Fin (305543520297402154380 / 269550134991100070177),
           Fin (503106884675898056151 / 269550134991100070177)]\<rparr>)"
  proof -
    obtain s where s: "rl_loop pyfftw_backend ?img ?otf 2 (Suc (Suc (Suc (Suc 0)))) 0
          (rl_init ?img) = Inr s"
      and us: "u_t s = Some \<lparr>shape = [2, 2], flat =
          [Fin (503106884675898056151 / 269550134991100070177),
           Fin (305543520297402154380 / 269550134991100070177),
           Fin (305543520297402154380 / 269550134991100070177),
           Fin (503106884675898056151 / 269550134991100070177)]\<rparr>"
      using rl_run22_order2
      by (cases "rl_loop pyfftw_backend ?img ?otf 2 (Suc (Suc (Suc (Suc 0)))) 0 (rl_init ?img)")
        (simp_all del: rl_loop.simps)
    have "richardson_lucy pyfftw_backend ?img ?psf 4 False 2 None = Inr (u_t s)"
      unfolding richardson_lucy_def n4 using s
      by (simp add: ndim_def rl_window_def psf_normalize22 rl_otf22 del: rl_loop.simps)
    then show ?thesis by (simp only: us)
  qed
  show ?thesis
    by (intro conjI first l4 rl_run22_order0 last)
qed

section \<open>The acceleration coefficient of the iterations\<close>

text \<open>
  C3, as stated, takes the coefficient of iteration \<open>i\<close> from the residuals \<open>g(i-1)\<close> and
  \<open>g(i-2)\<close>, where \<open>g(j) = u(j+1) - y(j)\<close> is the residual of iteration \<open>j\<close>. The code
  assigns the residual of the running iteration to \<open>g_tm1\<close> before it computes the
  coefficient, so it uses \<open>g(i)\<close> and \<open>g(i-1)\<close>. With the transforms of \<open>pyfftw_backend\<close>,
  the image \<open>[[1, 2], [2, 1]]\<close> and the PSF \<open>[[0, 1], [1, 1]]\<close> (normalised and transformed
  to the OTF below), the residuals of iterations 0 and 1 are \<open>1/5\<close> and \<open>27/140\<close> times
  \<open>[[1, -1], [-1, 1]]\<close>, for which the stated quotient is \<open>27/28\<close>; the coefficient of
  iteration 2 is \<open>1625/1763\<close>.
\<close>

theorem C3_residual_index_counterexample:
  "psf_normalize \<lparr>shape = [2, 2], flat = [Fin 1, Fin 2, Fin 2, Fin 1]\<rparr>
      \<lparr>shape = [2, 2], flat = [Fin 0, Fin 1, Fin 1, Fin 1]\<rparr>
    = Inr \<lparr>shape = [2, 2], flat = [Fin 0, Fin (1 / 3), Fin (1 / 3), Fin (1 / 3)]\<rparr>
  \<and> rl_otf pyfftw_backend (Scalar (Fin 1))
      \<lparr>shape = [2, 2], flat = [Fin 0, Fin (1 / 3), Fin (1 / 3), Fin (1 / 3)]\<rparr>
    = Inr \<lparr>shape = [2, 2], flat =
        [(Fin (1 / 2), Fin 0), (Fin (1 / 6), Fin 0), (Fin (1 / 6), Fin 0), (Fin (- 1 / 6), Fin 0)]\<rparr>
  \<and> (case rl_loop pyfftw_backend \<lparr>shape = [2, 2], flat = [Fin 1, Fin 2, Fin 2, Fin 1]\<rparr>
      \<lparr>shape = [2, 2], flat =
        [(Fin (1 / 2), Fin 0), (Fin (1 / 6), Fin 0), (Fin (1 / 6), Fin 0), (Fin (- 1 / 6), Fin 0)]\<rparr>
      2 (Suc (Suc 0)) 0 (rl_init \<lparr>shape = [2, 2], flat = [Fin 1, Fin 2, Fin 2, Fin 1]\<rparr>) of
      Inl e \<Rightarrow> False
    | Inr s \<Rightarrow>
        g_tm1 s = Some \<lparr>shape = [2, 2], flat =
          [Fin (27 / 140), Fin (- 27 / 140), Fin (- 27 / 140), Fin (27 / 140)]\<rparr>
      \<and> g_tm2 s = Some \<lparr>shape = [2, 2], flat =
          [Fin (1 / 5), Fin (- 1 / 5), Fin (- 1 / 5), Fin (1 / 5)]\<rparr>)
  \<and> alpha_of \<lparr>shape = [2, 2], flat =
          [Fin (27 / 140), Fin (- 27 / 140), Fin (- 27 / 140), Fin (27 / 140)]\<rparr>
      \<lparr>shape = [2, 2], flat =
          [Fin (1 / 5), Fin (- 1 / 5), Fin (- 1 / 5), Fin (1 / 5)]\<rparr> = Fin (27 / 28)
  \<and> (case rl_loop pyfftw_backend \<lparr>shape = [2, 2], flat = [Fin 1, Fin 2, Fin 2, Fin 1]\<rparr>
      \<lparr>shape = [2, 2], flat =
        [(Fin (1 / 2), Fin 0), (Fin (1 / 6), Fin 0), (Fin (1 / 6), Fin 0), (Fin (- 1 / 6), Fin 0)]\<rparr>
      2 (Suc (Suc (Suc 0))) 0 (rl_init \<lparr>shape = [2, 2], flat = [Fin 1, Fin 2, Fin 2, Fin 1]\<rparr>) of
      Inl e \<Rightarrow> False
    | Inr s \<Rightarrow> alpha s = Fin (1625 / 1763) \<and> alpha s \<noteq> Fin (27 / 28))"
proof -
  have third: "(case rl_loop pyfftw_backend \<lparr>shape = [2, 2], flat = [Fin 1, Fin 2, Fin 2, Fin 1]\<rparr>
      \<lparr>shape = [2, 2], flat =
        [(Fin (1 / 2), Fin 0), (Fin (1 / 6), Fin 0), (Fin (1 / 6), Fin 0), (Fin (- 1 / 6), Fin 0)]\<rparr>
      2 (Suc (Suc (Suc 0))) 0 (rl_init \<lparr>shape = [2, 2], flat = [Fin 1, Fin 2, Fin 2, Fin 1]\<rparr>) of
      Inl e \<Rightarrow> False
    | Inr s \<Rightarrow> alpha s = Fin (1625 / 1763) \<and> alpha s \<noteq> Fin (27 / 28))"
    using rl_run22_three by (simp del: rl_loop.simps split: sum.splits)
  show ?thesis
    by (intro conjI psf_normalize22 rl_otf22 rl_run22_two alpha_claimed22 third)
qed

text \<open>
  C3, amended: write \<open>g(j) = u(j+1) - y(j)\<close> for the residual computed in iteration
  \<open>j\<close> (the loop's \<open>g_tm1\<close> after that iteration). If iterations \<open>0 .. i\<close> of the loop
  have run, then the coefficient \<open>alpha\<close> of iteration \<open>i\<close> is 0 for \<open>i \<le> 1\<close>; for
  \<open>i > 1\<close> it is \<open>dot(g(i), g(i-1)) / dot(g(i-1), g(i-1))\<close> over the flattened residuals
  (the residual of the running iteration and the one before it, of equal shape), limited to
  \<open>[0, 1]\<close>: a quotient above 1 or \<open>+inf\<close> gives 1, a quotient below 0 or \<open>-inf\<close> gives
  0, and NaN gives 0. In every case \<open>0 \<le> alpha \<le> 1\<close>.
\<close>

theorem C3_alpha:
  assumes "rl_loop B img otf po (Suc i) 0 (rl_init img) = Inr st'"
  shows "\<exists>st u g.
      rl_loop B img otf po i 0 (rl_init img) = Inr st
    \<and> u_t st' = Some u \<and> binop (-) u (y_t st) = Inr g
    \<and> g_tm1 st' = Some g \<and> g_tm2 st' = g_tm1 st
    \<and> (if i \<le> 1 then alpha st' = Fin 0
        else \<exists>g'. g_tm1 st = Some g' \<and> (shape g' = shape g \<longrightarrow> alpha st' = alpha_of g g'))
    \<and> fl_le (Fin 0) (alpha st') \<and> fl_le (alpha st') (Fin 1)"
proof -
  from rl_loop_last [OF assms] obtain st where
    st: "rl_loop B img otf po i 0 (rl_init img) = Inr st"
    and step: "rl_step B img otf po i st = Inr st'" by auto
  from rl_step_residual [OF step] obtain u g where
    r: "u_t st' = Some u" "binop (-) u (y_t st) = Inr g" "g_tm1 st' = Some g"
      "g_tm2 st' = g_tm1 st" "rl_alpha i g (g_tm1 st) = Inr (alpha st')" "wf_array g"
    by blast
  obtain a where a: "alpha st' = Fin a" "0 \<le> a" "a \<le> 1"
    using rl_alpha_unit [OF r(5)] by blast
  have range: "fl_le (Fin 0) (alpha st') \<and> fl_le (alpha st') (Fin 1)" using a by simp
  have al: "if i \<le> 1 then alpha st' = Fin 0
      else \<exists>g'. g_tm1 st = Some g' \<and> (shape g' = shape g \<longrightarrow> alpha st' = alpha_of g g')"
  proof (cases "i \<le> 1")
    case True
    then show ?thesis using r(5) by (simp add: rl_alpha_def)
  next
    case False
    then obtain k where k: "i = Suc k" by (cases i) auto
    from st k rl_loop_last [of B img otf po k 0 "rl_init img" st]
    obtain sp where "rl_step B img otf po k sp = Inr st" by auto
    from rl_step_residual [OF this] obtain g' where g': "g_tm1 st = Some g'" "wf_array g'"
      by blast
    have "alpha st' = alpha_of g g'" if "shape g' = shape g"
      using rl_alpha_dot [OF _ r(6) g'(2) that, of i] False r(5) g'(1) by simp
    then show ?thesis using False g'(1) by simp
  qed
  from st r(1-4) al range show ?thesis by blast
qed

text \<open>
  The amended C3 at iteration 2 of the run on the image \<open>[[1, 2], [2, 1]]\<close> with the
  transforms of \<open>pyfftw_backend\<close>: the coefficient is the clamped quotient of the two
  residuals the state holds after the iteration, and it is \<open>1625/1763\<close>.
\<close>

theorem C3_alpha_witness:
  "(case rl_loop pyfftw_backend \<lparr>shape = [2, 2], flat = [Fin 1, Fin 2, Fin 2, Fin 1]\<rparr>
      \<lparr>shape = [2, 2], flat =
        [(Fin (1 / 2), Fin 0), (Fin (1 / 6), Fin 0), (Fin (1 / 6), Fin 0), (Fin (- 1 / 6), Fin 0)]\<rparr>
      2 (Suc (Suc (Suc 0))) 0 (rl_init \<lparr>shape = [2, 2], flat = [Fin 1, Fin 2, Fin 2, Fin 1]\<rparr>) of
      Inl e \<Rightarrow> False
    | Inr s \<Rightarrow>
        (case (g_tm1 s, g_tm2 s) of
           (Some g, Some g') \<Rightarrow>
             alpha s = alpha_of g g' \<and> alpha s = Fin (1625 / 1763)
             \<and> fl_le (Fin 0) (alpha s) \<and> fl_le (alpha s) (Fin 1)
         | _ \<Rightarrow> False))"
proof -
  let ?img = "\<lparr>shape = [2, 2], flat = [Fin 1, Fin 2, Fin 2, Fin 1]\<rparr>"
  let ?otf = "\<lparr>shape = [2, 2], flat = [(Fin (1 / 2), Fin 0), (Fin (1 / 6), Fin 0), (Fin (1 / 6), Fin 0), (Fin (- 1 / 6), Fin 0)]\<rparr>"
  let ?g1 = "\<lparr>shape = [2, 2], flat = [Fin (27 / 140), Fin (- 27 / 140), Fin (- 27 / 140), Fin (27 / 140)]\<rparr>"
  let ?g2 = "\<lparr>shape = [2, 2], flat = [Fin (8775 / 49364), Fin (- 8775 / 49364), Fin (- 8775 / 49364), Fin (8775 / 49364)]\<rparr>"
  obtain s where s: "rl_loop pyfftw_backend ?img ?otf 2 (Suc (Suc (Suc 0))) 0 (rl_init ?img) = Inr s"
    and s_al: "alpha s = Fin (1625 / 1763)" and s_g1: "g_tm1 s = Some ?g2"
    and s_g2: "g_tm2 s = Some ?g1"
    using rl_run22_three
    by (cases "rl_loop pyfftw_backend ?img ?otf 2 (Suc (Suc (Suc 0))) 0 (rl_init ?img)")
      (simp_all del: rl_loop.simps)
  from C3_alpha [OF s] obtain st g g' where
    st: "rl_loop pyfftw_backend ?img ?otf 2 (Suc (Suc 0)) 0 (rl_init ?img) = Inr st"
    and g: "g_tm1 s = Some g" and g': "g_tm1 st = Some g'" "g_tm2 s = g_tm1 st"
    and al: "shape g' = shape g \<longrightarrow> alpha s = alpha_of g g'"
    and range: "fl_le (Fin 0) (alpha s)" "fl_le (alpha s) (Fin 1)"
    by auto
  have "g = ?g2" using g s_g1 by simp
  moreover have "g' = ?g1" using g' s_g2 by simp
  ultimately have "alpha s = alpha_of ?g2 ?g1" using al by simp
  then show ?thesis using s s_al s_g1 s_g2 range by (simp del: rl_loop.simps)
qed

section \<open>Impulse point spread functions\<close>




section \<open>Properties of the pad-width calculator\<close>

text \<open>
  C7, as stated, asks that for an odd amount of padding the first component of the result
  (the amount put before the array) is the smaller half. The doctest input
  \<open>(11, 16)\<close> has the odd width 5 and yields \<open>(3, 2)\<close>: the first component is the
  larger half.
\<close>

theorem C7_smaller_half_first_counterexample:
  "(11::int) < 16 \<and> odd ((16::int) - 11) \<and> calc_pad 11 16 = (3, 2)
   \<and> \<not> fst (calc_pad 11 16) \<le> snd (calc_pad 11 16)"
  by (simp add: calc_pad_pair)

text \<open>
  C7, amended: for every old size and strictly larger new size the two pad widths are
  non-negative, add up to the required padding and differ by at most one; when the required
  padding is odd the larger half comes first (it is the amount applied before the array) and
  the smaller half second, and when it is even the two are equal.
\<close>

theorem C7_calc_pad_split:
  assumes "oldnum < newnum"
  shows "fst (calc_pad oldnum newnum) + snd (calc_pad oldnum newnum) = newnum - oldnum
    \<and> 0 \<le> snd (calc_pad oldnum newnum)
    \<and> snd (calc_pad oldnum newnum) \<le> fst (calc_pad oldnum newnum)
    \<and> fst (calc_pad oldnum newnum) \<le> snd (calc_pad oldnum newnum) + 1
    \<and> (if odd (newnum - oldnum)
        then fst (calc_pad oldnum newnum) = snd (calc_pad oldnum newnum) + 1
        else fst (calc_pad oldnum newnum) = snd (calc_pad oldnum newnum))"
proof -
  define w where "w = newnum - oldnum"
  have pos: "0 < w" using assms by (simp add: w_def)
  have pair: "calc_pad oldnum newnum = (w - w div 2, w div 2)"
    by (simp add: calc_pad_pair w_def)
  have "0 \<le> w div 2" using pos by simp
  moreover have "w div 2 \<le> w - w div 2" by presburger
  moreover have "w - w div 2 \<le> w div 2 + 1" by presburger
  moreover have "odd w \<Longrightarrow> w - w div 2 = w div 2 + 1" by presburger
  moreover have "even w \<Longrightarrow> w - w div 2 = w div 2" by presburger
  ultimately show ?thesis
    unfolding pair w_def [symmetric] by simp
qed

theorem C7_calc_pad_split_witness:
  "(10::int) < 17 \<and> calc_pad 10 17 = (4, 3)
   \<and> fst (calc_pad 10 17) = snd (calc_pad 10 17) + 1"
  using C7_calc_pad_split [of 10 17] by (simp add: calc_pad_pair)

section \<open>Properties of rescaling\<close>

text \<open>
  C8, amended: for every array of \<^verbatim>\<open>float64\<close> whose values are all finite and not all
  equal and whose range does not overflow (the difference of any two of its values is
  finite, which is the case when the largest minus the smallest value is below
  \<open>2^1024 - 2^970\<close>), \<open>scale\<close> with no dtype returns an array of the same shape whose
  values all lie in \<open>[0, 1]\<close>, whose maximum (\<^verbatim>\<open>b.max()\<close>) is exactly 1 and whose minimum
  (\<^verbatim>\<open>b.min()\<close>) is exactly 0.
\<close>

theorem C8_scale_range:
  assumes fin: "list_all isfinite (flat A)"
    and two: "\<exists>x \<in> set (flat A). \<exists>y \<in> set (flat A). x \<noteq> y"
    and rng: "\<forall>x \<in> set (flat A). \<forall>y \<in> set (flat A). isfinite (overflow (x - y))"
  shows "\<exists>B. scale A = Inr B \<and> shape B = shape A \<and> length (flat B) = length (flat A)
    \<and> list_all (\<lambda>v. fl_le (Fin 0) v \<and> fl_le v (Fin 1)) (flat B)
    \<and> amax B = Inr (Fin 1) \<and> amin B = Inr (Fin 0)"
proof -
  obtain rs where rs: "flat A = map Fin rs" using finite_list_reals [OF fin] by blast
  have A: "A = \<lparr>shape = shape A, flat = map Fin rs\<rparr>" using rs by (cases A) simp
  from two rs obtain p q where pq: "p \<in> set rs" "q \<in> set rs" "p \<noteq> q" by auto
  then have ne: "rs \<noteq> []" by auto
  define mn where "mn = Min (set rs)"
  define mx where "mx = Max (set rs)"
  have mn_le: "\<And>r. r \<in> set rs \<Longrightarrow> mn \<le> r" by (simp add: mn_def)
  have le_mx: "\<And>r. r \<in> set rs \<Longrightarrow> r \<le> mx" by (simp add: mx_def)
  have mn_in: "mn \<in> set rs" unfolding mn_def using ne by (simp add: Min_in)
  have mx_in: "mx \<in> set rs" unfolding mx_def using ne by (simp add: Max_in)
  have lt: "mn < mx"
  proof (rule ccontr)
    assume "\<not> mn < mx"
    then have "mx \<le> mn" by simp
    then have "p = q" using mn_le [OF pq(1)] mn_le [OF pq(2)] le_mx [OF pq(1)] le_mx [OF pq(2)]
      by linarith
    then show False using pq(3) by simp
  qed
  have no: "Max (set rs) - Min (set rs) < overflow_bound"
    using rng ne unfolding rs by (rule range_no_overflow)
  define g where "g = (\<lambda>r. (r - mn) / (mx - mn))"
  define B where "B = \<lparr>shape = shape A, flat = map (\<lambda>r. Fin (g r)) rs\<rparr>"
  have sc: "scale A = Inr B"
    using scale_Fin [OF ne _ no, of "shape A"] lt A
    by (simp add: B_def g_def mn_def mx_def)
  have g0: "\<And>r. r \<in> set rs \<Longrightarrow> 0 \<le> g r"
    using mn_le lt by (simp add: g_def)
  have g1: "\<And>r. r \<in> set rs \<Longrightarrow> g r \<le> 1"
    using le_mx lt by (simp add: g_def)
  have range: "list_all (\<lambda>v. fl_le (Fin 0) v \<and> fl_le v (Fin 1)) (flat B)"
    using g0 g1 by (simp add: B_def list_all_iff)
  have gne: "map g rs \<noteq> []" using ne by simp
  have Bm: "B = \<lparr>shape = shape A, flat = map Fin (map g rs)\<rparr>"
    by (simp add: B_def comp_def)
  have "Max (set (map g rs)) = 1"
  proof (rule Max_eqI)
    show "finite (set (map g rs))" by simp
    show "\<And>y. y \<in> set (map g rs) \<Longrightarrow> y \<le> 1" using g1 by auto
    have "g mx = 1" using lt by (simp add: g_def)
    then show "1 \<in> set (map g rs)" using mx_in by force
  qed
  then have mx1: "amax B = Inr (Fin 1)"
    using amax_Fin [OF gne, of "shape A"] Bm by simp
  have "Min (set (map g rs)) = 0"
  proof (rule Min_eqI)
    show "finite (set (map g rs))" by simp
    show "\<And>y. y \<in> set (map g rs) \<Longrightarrow> 0 \<le> y" using g0 by auto
    have "g mn = 0" by (simp add: g_def)
    then show "0 \<in> set (map g rs)" using mn_in by force
  qed
  then have mn0: "amin B = Inr (Fin 0)"
    using amin_Fin [OF gne, of "shape A"] Bm by simp
  show ?thesis
    using sc range mx1 mn0 by (intro exI [of _ B]) (simp add: B_def rs)
qed

text \<open>
  C8, as stated, covers every array without NaN. A constant array has \<open>dmax = dmin\<close>, the
  unguarded division is \<open>0/0\<close>, and every element of the result is NaN: the values are
  not in \<open>[0, 1]\<close> and neither the maximum is 1 nor the minimum 0.
\<close>

theorem C8_constant_array_counterexample:
  "list_all (\<lambda>v. \<not> isnan v) [Fin 1, Fin 1]
   \<and> scale \<lparr>shape = [2], flat = [Fin 1, Fin 1]\<rparr> = Inr \<lparr>shape = [2], flat = [NaN, NaN]\<rparr>
   \<and> \<not> list_all (\<lambda>v. fl_le (Fin 0) v \<and> fl_le v (Fin 1)) [NaN, NaN]
   \<and> amax \<lparr>shape = [2], flat = [NaN, NaN]\<rparr> \<noteq> Inr (Fin 1)
   \<and> amin \<lparr>shape = [2], flat = [NaN, NaN]\<rparr> \<noteq> Inr (Fin 0)"
  by (simp add: scale_def nanmin_def nanmax_def amax_def amin_def reduce_def map_array_def
      fl_fmin_def fl_fmax_def fl_maximum_def fl_minimum_def minus_fl_def overflow_small)

text \<open>The amended C8 at the array \<open>[2, 4, 3]\<close>, which scales to \<open>[0, 1, 1/2]\<close>.\<close>

theorem C8_scale_range_witness:
  "scale \<lparr>shape = [3], flat = [Fin 2, Fin 4, Fin 3]\<rparr>
     = Inr \<lparr>shape = [3], flat = [Fin 0, Fin 1, Fin (1/2)]\<rparr>
   \<and> amax \<lparr>shape = [3], flat = [Fin 0, Fin 1, Fin (1/2)]\<rparr> = Inr (Fin 1)"
proof -
  let ?A = "\<lparr>shape = [3], flat = [Fin 2, Fin 4, Fin 3]\<rparr> :: fl ndarray"
  have "list_all isfinite (flat ?A)" by simp
  moreover have "\<exists>x \<in> set (flat ?A). \<exists>y \<in> set (flat ?A). x \<noteq> y"
    by (intro bexI [of _ "Fin 2"] bexI [of _ "Fin 4"]) simp_all
  moreover have "\<forall>x \<in> set (flat ?A). \<forall>y \<in> set (flat ?A). isfinite (overflow (x - y))"
    by (simp add: minus_fl_def overflow_small)
  ultimately obtain B where B: "scale ?A = Inr B" "amax B = Inr (Fin 1)"
    using C8_scale_range [of ?A] by blast
  have "scale ?A = Inr \<lparr>shape = [3], flat = [Fin 0, Fin 1, Fin (1/2)]\<rparr>"
    by (simp add: scale_def nanmin_def nanmax_def reduce_def map_array_def
      fl_fmin_def fl_fmax_def minus_fl_def overflow_small)
  with B show ?thesis by simp
qed

text \<open>
  An array whose range overflows: for \<open>[2^1023, -2^1023]\<close> the difference
  \<open>dmax - dmin\<close> is infinite, so the largest value scales to \<open>inf / inf\<close>, NaN, and the
  smallest to \<open>0 / inf\<close>, 0.
\<close>

lemma scale_range_overflow:
  "scale \<lparr>shape = [2], flat = [Fin (2 ^ 1023), Fin (- (2 ^ 1023))]\<rparr>
     = Inr \<lparr>shape = [2], flat = [NaN, Fin 0]\<rparr>"
proof -
  have big: "overflow (Fin (2 ^ 1023 + 2 ^ 1023)) = PInf"
  proof -
    have "(2::real) ^ 1023 + 2 ^ 1023 = 2 ^ 1024" by simp
    moreover have "overflow_bound \<le> 2 ^ 1024" by (simp add: overflow_bound_def)
    ultimately show ?thesis by (simp only: overflow_def fl.case if_True)
  qed
  have small: "overflow (Fin 0) = Fin 0" "overflow (Fin 1) = Fin 1"
    by (simp_all add: overflow_small)
  have mn: "nanmin \<lparr>shape = [2], flat = [Fin (2 ^ 1023), Fin (- (2 ^ 1023))]\<rparr>
      = Inr (Fin (- (2 ^ 1023)))"
    by (simp add: nanmin_def reduce_def fl_fmin_def)
  have mx: "nanmax \<lparr>shape = [2], flat = [Fin (2 ^ 1023), Fin (- (2 ^ 1023))]\<rparr>
      = Inr (Fin (2 ^ 1023))"
    by (simp add: nanmax_def reduce_def fl_fmax_def)
  have d: "Fin (2 ^ 1023) - Fin (- (2 ^ 1023)) = Fin (2 ^ 1023 + 2 ^ 1023)"
    "Fin (- (2 ^ 1023)) - Fin (- (2 ^ 1023)) = Fin 0" "Fin 1 - Fin 0 = Fin 1"
    by (simp_all add: minus_fl_def)
  show ?thesis
    unfolding scale_def mn mx sum.case Let_def map_array_def
    by (simp only: ndarray.simps list.map d big small) (simp add: small)
qed

section \<open>Properties of the radial profile\<close>













lemma overflow_not_finite: "\<not> isfinite v \<Longrightarrow> \<not> isfinite (overflow v)"
  by (cases v) simp_all












text \<open>
  A centre beyond the range of the integers: the one-pixel array of ones and the centre
  \<open>(0, 10^19)\<close>. The rounded radius \<open>10^19\<close> is cast to \<open>-2^63\<close> and
  \<^verbatim>\<open>np.bincount\<close> raises.
\<close>

lemma round_half_even_int: "round_half_even (of_int k) = k"
  by (simp add: round_half_even_def)

lemma far_bin:
  "radial_bins (Suc 0) (Suc 0) (Some (Fin 0, Fin (10 ^ 19))) (Fin 1) = [- (2 ^ 63)]"
proof -
  have s: "sqrt (10000000000000000000 * 10000000000000000000) = (10000000000000000000 :: real)"
    by (rule real_sqrt_unique) (simp_all add: power2_eq_square)
  have r: "round_half_even 10000000000000000000 = 10000000000000000000"
    using round_half_even_int [of 10000000000000000000] by simp
  show ?thesis
    by (simp add: radial_bins_def Let_def minus_fl_def overflow_small s np_round_def r
        astype_int64_def)
qed

lemma radial_profile_far_centre:
  "radial_profile \<lparr>shape = [1, 1], flat = [Fin 1]\<rparr> (Some (Fin 0, Fin (10 ^ 19))) (Fin 1)
     = Inl (ValueError ''list argument must have no negative elements'')"
  using far_bin by (simp add: radial_profile_def Let_def)

section \<open>Empty operands of the spectral convolution\<close>

text \<open>
  C10, as stated, lets an empty operand decide the result for any other operand. The
  dimension test comes first: an empty one-dimensional array and a two-dimensional array
  raise the dimension-mismatch error.
\<close>

theorem C10_empty_operand_counterexample:
  "size_of \<lparr>shape = [0], flat = ([] :: fl list)\<rparr> = 0
   \<and> fftconvolve pyfftw_backend \<lparr>shape = [0], flat = []\<rparr>
        \<lparr>shape = [1, 1], flat = [Fin 1]\<rparr> ''full'' 1 np_ones
      = Inl (ValueError ''in1 and in2 should have the same dimensionality'')"
  by (simp add: fftconvolve_def size_of_def ndim_def)

text \<open>
  C10, amended: if the two operands of \<open>fftconvolve\<close> have the same number of dimensions
  and either of them is an empty array (size 0), the result is an empty array and nothing is
  raised, for every mode argument including unrecognised mode strings, because the
  empty-input check runs before any look at the mode.
\<close>

theorem C10_empty_operand:
  assumes "ndim in1 = ndim in2" and "size_of in1 = 0 \<or> size_of in2 = 0"
  shows "fftconvolve B in1 in2 mode threads window = Inr \<lparr>shape = [0], flat = []\<rparr>"
proof -
  have "ndim in2 \<noteq> 0"
  proof
    assume "ndim in2 = 0"
    then have "shape in1 = []" "shape in2 = []" using assms(1) by (simp_all add: ndim_def)
    then show False using assms(2) by (simp add: size_of_def)
  qed
  then show ?thesis using assms by (simp add: fftconvolve_def)
qed

text \<open>C10, amended, at an empty and a non-empty vector with a mode that does not exist.\<close>

theorem C10_empty_operand_witness:
  "ndim \<lparr>shape = [0], flat = ([] :: fl list)\<rparr> = ndim \<lparr>shape = [2], flat = [Fin 1, Fin 2]\<rparr>
   \<and> size_of \<lparr>shape = [0], flat = ([] :: fl list)\<rparr> = 0
   \<and> fftconvolve pyfftw_backend \<lparr>shape = [0], flat = []\<rparr>
        \<lparr>shape = [2], flat = [Fin 1, Fin 2]\<rparr> ''no such mode'' 1 np_ones
      = Inr \<lparr>shape = [0], flat = []\<rparr>"
proof -
  let ?e = "\<lparr>shape = [0], flat = ([] :: fl list)\<rparr>"
  let ?v = "\<lparr>shape = [2], flat = [Fin 1, Fin 2]\<rparr> :: fl ndarray"
  have d: "ndim ?e = ndim ?v" by (simp add: ndim_def)
  have z: "size_of ?e = 0 \<or> size_of ?v = 0" by (simp add: size_of_def)
  have z': "size_of ?e = 0" by (simp add: size_of_def)
  show ?thesis
    using d z' C10_empty_operand [OF d z, of pyfftw_backend "''no such mode''" 1 np_ones]
    by simp
qed

section \<open>Shapes in the spectral convolution\<close>

lemma shape_tabulate [simp]: "shape (tabulate s f) = s"
  by (simp add: tabulate_def)

lemma nat_bit_length_gt: "n < 2 ^ nat_bit_length n"
proof (induction n rule: nat_bit_length.induct)
  case (1 n)
  show ?case
  proof (cases "n = 0")
    case True
    then show ?thesis by (simp add: nat_bit_length.simps)
  next
    case False
    with 1 have "n div 2 < 2 ^ nat_bit_length (n div 2)" by simp
    then have "n < 2 * 2 ^ nat_bit_length (n div 2)" by linarith
    with False show ?thesis by (subst nat_bit_length.simps) simp
  qed
qed

lemma next_fast_len_ge: "n \<le> next_fast_len n"
proof (cases "n \<le> 6")
  case True
  then show ?thesis by (simp add: next_fast_len_def)
next
  case False
  define hi :: nat where "hi = 2 ^ bit_length (int n - 1)"
  have "nat \<bar>int n - 1\<bar> = n - 1" using False by simp
  then have "bit_length (int n - 1) = nat_bit_length (n - 1)" by (simp only: bit_length_def)
  then have "n - 1 < hi" using nat_bit_length_gt [of "n - 1"] by (simp only: hi_def)
  then have hi: "n \<le> hi" using False by simp
  let ?l = "filter smooth5 [n..<hi] @ [hi]"
  have "hd ?l \<in> set ?l" by (rule hd_in_set) simp
  then have "n \<le> hd ?l" using hi by auto
  then show ?thesis using False by (simp add: next_fast_len_def hi_def Let_def)
qed

lemma shape_pad_median_axis:
  "shape (pad_median_axis k p a) = (shape a)[k := fst p + shape a ! k + snd p]"
  by (simp add: pad_median_axis_def Let_def)

lemma shape_pad_median_fold:
  "i + length ps = length (shape a) \<Longrightarrow>
   shape (fold (\<lambda>(k, p) acc. pad_median_axis k p acc) (zip [i..<i + length ps] ps) a)
    = take i (shape a) @ map (\<lambda>(n, b, e). b + n + e) (zip (drop i (shape a)) ps)"
proof (induction ps arbitrary: i a)
  case Nil
  then show ?case by simp
next
  case (Cons p ps)
  obtain b e where p: "p = (b, e)" by (cases p)
  let ?a = "pad_median_axis i p a"
  let ?s = "shape a"
  have i: "i < length ?s" using Cons.prems by simp
  have sa: "shape ?a = ?s[i := b + ?s ! i + e]" by (simp add: shape_pad_median_axis p)
  have len: "Suc i + length ps = length (shape ?a)" using Cons.prems by (simp add: sa)
  have upt: "[i..<i + length (p # ps)] = i # [Suc i..<Suc i + length ps]"
    by (subst upt_rec) simp
  have "shape (fold (\<lambda>(k, p) acc. pad_median_axis k p acc)
          (zip [i..<i + length (p # ps)] (p # ps)) a)
      = shape (fold (\<lambda>(k, p) acc. pad_median_axis k p acc)
          (zip [Suc i..<Suc i + length ps] ps) ?a)"
    by (simp only: upt zip_Cons_Cons fold_Cons comp_def case_prod_conv)
  also have "\<dots> = take (Suc i) (shape ?a)
      @ map (\<lambda>(n, b, e). b + n + e) (zip (drop (Suc i) (shape ?a)) ps)"
    using len by (rule Cons.IH)
  also have "take (Suc i) (shape ?a) = take i ?s @ [b + ?s ! i + e]"
    using i by (simp add: sa take_Suc_conv_app_nth)
  also have "drop (Suc i) (shape ?a) = drop (Suc i) ?s" by (simp add: sa)
  finally show ?case using i by (simp add: p Cons_nth_drop_Suc [symmetric])
qed

lemma shape_pad_median:
  assumes "length pads = length (shape a)"
  shows "shape (pad_median pads a) = padded_shape (shape a) pads"
  using shape_pad_median_fold [of 0 pads a] assms
  by (simp add: pad_median_def padded_shape_def)

lemma nat_int_pairs:
  "map (\<lambda>(b, e). (nat b, nat e)) (map (\<lambda>(b, e). (int b, int e)) pads) = pads"
  by (induction pads) auto

lemma nat_int_pairs_comp:
  "map ((\<lambda>(b, e). (nat b, nat e)) \<circ> (\<lambda>(b, e). (int b, int e))) pads = pads"
  by (induction pads) auto

lemma fft_pad_median_shape:
  assumes "list_all2 (\<le>) sp s" and "shape a = sp" and "sp \<noteq> []" and "0 \<notin> set sp"
  shows "\<exists>p. fft_pad a (PadSeq (map (\<lambda>n. Some (int n)) s)) Median = Inr p \<and> shape p = s"
proof -
  let ?pads = "pad_amounts sp s"
  have len: "length sp = length s" using assms(1) by (rule list_all2_lengthD)
  have lp: "length ?pads = ndim a" and nd: "ndim a \<noteq> 0"
    using assms len by (auto simp: length_pad_amounts ndim_def)
  have neg: "\<not> list_ex (\<lambda>(b, e). b < 0 \<or> e < 0) (map (\<lambda>(b, e). (int b, int e)) ?pads)"
    by (auto simp: list_ex_iff)
  have nat: "map (\<lambda>(b, e). (nat b, nat e)) (map (\<lambda>(b, e). (int b, int e)) ?pads) = ?pads"
    by (rule nat_int_pairs)
  have empty: "\<not> list_ex (\<lambda>(n, b, e). n = 0 \<and> (0 < b \<or> 0 < e)) (zip (shape a) ?pads)"
    using assms(2,4) by (auto simp: list_ex_iff dest: set_zip_leftD)
  have "np_pad a (map (\<lambda>(b, e). (int b, int e)) ?pads) Median = Inr (pad_median ?pads a)"
  proof -
    have "?pads \<noteq> []" using lp nd by auto
    then show ?thesis
      unfolding np_pad_def using lp nd neg empty by (simp add: nat_int_pairs_comp Let_def)
  qed
  moreover have "shape (pad_median ?pads a) = s"
    using lp assms(1,2) by (simp add: shape_pad_median ndim_def padded_shape_amounts)
  ultimately show ?thesis using fft_pad_padding [OF assms(1,2)] by simp
qed

lemma fft_pad_constant_shape:
  assumes "list_all2 (\<le>) sp s" and "shape a = sp" and "sp \<noteq> []"
  shows "\<exists>p. fft_pad a (PadSeq (map (\<lambda>n. Some (int n)) s)) Constant = Inr p \<and> shape p = s"
  using fft_pad_constant [OF assms] assms(1,2)
  by (simp add: pad_constant_def padded_shape_amounts)

lemma shape_ifftshift [simp]: "shape (ifftshift a) = shape a"
  by (simp add: ifftshift_def)

lemma np_rfftn_shape:
  assumes "\<not> no_points (shape a)"
  shows "\<exists>f. np_rfftn a = Inr f \<and> shape f = half_shape (shape a)"
  using assms by (simp add: np_rfftn_def)

lemma np_irfftn_shape:
  assumes "\<not> no_points s" and "length s = ndim a"
  shows "\<exists>r. np_irfftn a s = Inr r \<and> shape r = s \<and> wf_array r"
  using assms by (simp add: np_irfftn_def wf_tabulate)

lemma sequence_err_Inr: "sequence_err (map (\<lambda>x. Inr (g x)) xs) = Inr (map g xs)"
  by (induction xs) simp_all

lemma fold_max_eq:
  fixes k :: nat
  assumes "k \<in> set xs" and "\<forall>x \<in> set xs. x \<le> k"
  shows "fold max xs 0 = k"
proof -
  have "fold max xs 0 = Max (set (0 # xs))" by (simp only: Max.set_eq_fold)
  also have "\<dots> = k" using assms by (intro Max_eqI) auto
  finally show ?thesis .
qed

lemma prod_list_ones: "\<forall>x \<in> set xs. f x = (1::nat) \<Longrightarrow> prod_list (map f xs) = 1"
  by (induction xs) simp_all

lemma single_axis_shape:
  fixes k :: nat
  assumes "j < n" and "0 < k"
  shows "fold max (map (\<lambda>i. if i \<noteq> j then 1 else k) [0..<n]) 0 = k"
    and "prod_list (map (\<lambda>i. if i \<noteq> j then 1 else k) [0..<n]) = k"
proof -
  let ?f = "\<lambda>i. if i \<noteq> j then 1 else k"
  show "fold max (map ?f [0..<n]) 0 = k"
    using assms by (intro fold_max_eq) (auto simp: image_iff intro: bexI [of _ j])
  have split: "[0..<n] = [0..<j] @ j # [Suc j..<n]"
    using assms(1) by (metis less_imp_add_positive upt_add_eq_append upt_conv_Cons zero_le)
  have "prod_list (map ?f [0..<j]) = 1" by (rule prod_list_ones) simp
  moreover have "prod_list (map ?f [Suc j..<n]) = 1" by (rule prod_list_ones) simp
  ultimately show "prod_list (map ?f [0..<n]) = k" by (simp add: split)
qed

lemma win_nd_ones:
  assumes "0 \<notin> set sz"
  shows "\<exists>w. win_nd sz np_ones = Inr w \<and> shape w = sz \<and> wf_array w"
proof -
  let ?n = "length sz"
  let ?shapes = "map (\<lambda>(j, k). map (\<lambda>i. if i \<noteq> j then 1 else k) [0..<?n]) (zip [0..<?n] sz)"
  let ?g = "\<lambda>newshape :: nat list. np_ones (fold max newshape 0)"
  have eq: "map (\<lambda>newshape. if length (np_ones (fold max newshape 0)) = prod_list newshape
                          then Inr (np_ones (fold max newshape 0))
                          else Inl (ValueError ''cannot reshape array'')) ?shapes
      = map (\<lambda>newshape. (Inr (?g newshape) :: error + fl list)) ?shapes"
  proof (rule map_cong [OF refl])
    fix ns assume "ns \<in> set ?shapes"
    then obtain j k where jk: "(j, k) \<in> set (zip [0..<?n] sz)"
      and ns: "ns = map (\<lambda>i. if i \<noteq> j then 1 else k) [0..<?n]" by auto
    have "j < ?n" using jk by (auto dest: set_zip_leftD)
    moreover have "0 < k" using jk assms by (metis gr0I set_zip_rightD)
    ultimately have "fold max ns 0 = k" "prod_list ns = k"
      unfolding ns by (rule single_axis_shape)+
    then show "(if length (np_ones (fold max ns 0)) = prod_list ns
                then Inr (np_ones (fold max ns 0))
                else Inl (ValueError ''cannot reshape array''))
        = (Inr (?g ns) :: error + fl list)"
      by (simp add: np_ones_def)
  qed
  show ?thesis
    unfolding win_nd_def Let_def eq sequence_err_Inr
    by (simp add: wf_tabulate)
qed

lemma slice_full_ext:
  "list_all2 (\<le>) shp fs \<Longrightarrow>
   map (\<lambda>(l, h). h - l)
     (zip (map (\<lambda>((b, e), n). slice_bound n b) (zip (map (\<lambda>sz. (0::int, int sz)) shp) fs))
          (map (\<lambda>((b, e), n). slice_bound n e) (zip (map (\<lambda>sz. (0::int, int sz)) shp) fs)))
    = shp"
  by (induction shp fs rule: list_all2_induct) (simp_all add: slice_bound_def)

lemma slice_array_full:
  assumes "list_all2 (\<le>) shp (shape a)"
  shows "\<exists>r. slice_array (map (\<lambda>sz. (0::int, int sz)) shp) a = Inr r \<and> shape r = shp \<and> wf_array r"
proof -
  have "length shp = length (shape a)" using assms by (rule list_all2_lengthD)
  then show ?thesis
    using slice_full_ext [OF assms]
    by (simp add: slice_array_def ndim_def Let_def wf_tabulate)
qed

lemma shape_slice_array:
  assumes "slice_array sl a = Inr r"
  shows "length sl \<le> length (shape a)"
    and "shape r = map (\<lambda>(l, h). h - l)
     (zip (map (\<lambda>((b, e), n). slice_bound n b) (zip sl (shape a)))
          (map (\<lambda>((b, e), n). slice_bound n e) (zip sl (shape a))))
      @ drop (length sl) (shape a)"
  using assms by (auto simp: slice_array_def ndim_def Let_def split: if_splits)

lemma slice_array_bound:
  assumes "slice_array (map (\<lambda>sz. (0::int, int sz)) shp) a = Inr r"
  shows "length shp \<le> ndim r \<and> list_all2 (\<le>) (take (length shp) (shape r)) shp"
proof -
  have len: "length shp \<le> length (shape a)"
    using shape_slice_array(1) [OF assms] by simp
  have bound: "list_all2 (\<le>)
     (map (\<lambda>(l, h). h - l)
     (zip (map (\<lambda>((b, e), n). slice_bound n b) (zip (map (\<lambda>sz. (0::int, int sz)) shp) fs))
          (map (\<lambda>((b, e), n). slice_bound n e) (zip (map (\<lambda>sz. (0::int, int sz)) shp) fs)))) shp"
    if "length shp \<le> length fs" for fs
    using that
  proof (induction shp arbitrary: fs)
    case Nil
    then show ?case by simp
  next
    case (Cons x xs)
    then obtain f fs' where "fs = f # fs'" by (cases fs) auto
    with Cons show ?case by (simp add: slice_bound_def)
  qed
  have "shape r = map (\<lambda>(l, h). h - l)
     (zip (map (\<lambda>((b, e), n). slice_bound n b) (zip (map (\<lambda>sz. (0::int, int sz)) shp) (shape a)))
          (map (\<lambda>((b, e), n). slice_bound n e) (zip (map (\<lambda>sz. (0::int, int sz)) shp) (shape a))))
      @ drop (length shp) (shape a)"
    using shape_slice_array(2) [OF assms] by simp
  then show ?thesis using bound [OF len] len by (simp add: ndim_def)
qed

lemma prod_list_zero: "0 \<in> set xs \<Longrightarrow> prod_list xs = (0::nat)"
  by (induction xs) auto

lemma positive_extents: "0 < size_of a \<Longrightarrow> 0 \<notin> set (shape a)"
  using prod_list_zero [of "shape a"] by (auto simp: size_of_def)

lemma shape_direct_convolve:
  "shape (direct_convolve in1 in2) = map (\<lambda>(a, b). a + b - 1) (zip (shape in1) (shape in2))"
  by (simp add: direct_convolve_def)

lemma fftconvolve_full_returns:
  assumes nd: "ndim in1 = ndim in2" and sz1: "0 < size_of in1" and sz2: "0 < size_of in2"
  shows "\<exists>r. fftconvolve pyfftw_backend in1 in2 ''full'' threads np_ones = Inr r \<and> wf_array r
      \<and> shape r = map (\<lambda>(a, b). max a b) (zip (shape in1) (shape in2))"
proof (cases "ndim in2 = 0")
  case True
  then have "shape in1 = shape in2" "shape in1 = []" using nd by (simp_all add: ndim_def)
  then show ?thesis
    using binop_shape [of in1 in2 "(*)"] nd True by (auto simp: fftconvolve_def)
next
  case False
  define shp where "shp = map (\<lambda>(a, b). max a b) (zip (shape in1) (shape in2))"
  define fshape where "fshape = map next_fast_len shp"
  define hshape where "hshape = half_shape fshape"
  have shp_eq: "map (\<lambda>(a, b). max a b) (zip (shape in1) (shape in2)) = shp"
    by (simp add: shp_def)
  have fshape_eq: "map next_fast_len shp = fshape" by (simp add: fshape_def)
  have hshape_eq: "butlast fshape @ [Suc (last fshape div 2)] = hshape"
    by (simp add: hshape_def half_shape_def)
  have len: "length (shape in1) = length (shape in2)" using nd by (simp add: ndim_def)
  have ne: "shape in1 \<noteq> []" "shape in2 \<noteq> []" using False nd by (auto simp: ndim_def)
  have nz1: "0 \<notin> set (shape in1)" and nz2: "0 \<notin> set (shape in2)"
    using sz1 sz2 by (simp_all add: positive_extents)
  have lshp: "length shp = length (shape in1)" using len by (simp add: shp_def)
  have lfs: "length fshape = length (shape in1)" using lshp by (simp add: fshape_def)
  have nth_shp: "shp ! k = max (shape in1 ! k) (shape in2 ! k)" if "k < length (shape in1)" for k
    using that len by (simp add: shp_def)
  have nth_fs: "shp ! k \<le> fshape ! k" if "k < length (shape in1)" for k
    using that lshp by (simp add: fshape_def next_fast_len_ge)
  have le: "list_all2 (\<le>) shp fshape"
    using lshp lfs nth_fs by (simp add: list_all2_conv_all_nth)
  have le1: "list_all2 (\<le>) (shape in1) fshape"
    using lfs nth_fs nth_shp by (auto simp: list_all2_conv_all_nth intro: order_trans [OF max.cobounded1])
  have le2: "list_all2 (\<le>) (shape in2) fshape"
    using lfs len nth_fs nth_shp by (auto simp: list_all2_conv_all_nth intro: order_trans [OF max.cobounded2])
  have nzf: "0 \<notin> set fshape"
  proof
    assume "0 \<in> set fshape"
    then obtain k where k: "k < length fshape" "fshape ! k = 0" by (auto simp: in_set_conv_nth)
    then have "shape in1 ! k = 0" using le1 by (auto simp: list_all2_conv_all_nth)
    then show False using nz1 k(1) lfs by (metis nth_mem)
  qed
  have fne: "fshape \<noteq> []" using lfs ne by auto
  have points: "\<not> no_points fshape" using nzf fne by (simp add: no_points_def)
  have lhs: "length hshape = length fshape" using fne by (simp add: hshape_def half_shape_def)
  have nzh: "0 \<notin> set hshape"
    using nzf by (auto simp: hshape_def half_shape_def dest: in_set_butlastD)
  let ?target = "PadSeq (map (\<lambda>n. Some (int n)) fshape)"
  obtain p1 where p1: "fft_pad in1 ?target Median = Inr p1" "shape p1 = fshape"
    using fft_pad_median_shape [OF le1 refl ne(1) nz1] by blast
  obtain f1 where f1: "np_rfftn p1 = Inr f1" "shape f1 = hshape"
    using np_rfftn_shape [of p1] points p1(2) by (auto simp: hshape_def)
  obtain p2 where p2: "fft_pad in2 ?target Constant = Inr p2" "shape p2 = fshape"
    using fft_pad_constant_shape [OF le2 refl ne(2)] by blast
  obtain f2 where f2: "np_rfftn (ifftshift p2) = Inr f2" "shape f2 = hshape"
    using np_rfftn_shape [of "ifftshift p2"] points p2(2) by (auto simp: hshape_def)
  obtain f12 where f12: "binop cmul f1 f2 = Inr f12" "shape f12 = hshape"
    using binop_shape [of f1 f2 cmul] f1(2) f2(2) by auto
  obtain w where w: "win_nd hshape np_ones = Inr w" "shape w = hshape"
    using win_nd_ones [OF nzh] by blast
  obtain f12w where f12w: "binop (\<lambda>z v. cmul z (of_fl v)) f12 (ifftshift w) = Inr f12w"
      "shape f12w = hshape"
    using binop_shape [of f12 "ifftshift w" "\<lambda>z v. cmul z (of_fl v)"] f12(2) w(2) by auto
  obtain r where r: "np_irfftn f12w fshape = Inr r" "shape r = fshape"
    using np_irfftn_shape [OF points, of f12w] f12w(2) lhs by (auto simp: ndim_def)
  obtain ret where ret: "slice_array (map (\<lambda>sz. (0::int, int sz)) shp) r = Inr ret"
      "shape ret = shp" "wf_array ret"
    using slice_array_full [of shp r] le r(2) by auto
  have "fftconvolve pyfftw_backend in1 in2 ''full'' threads np_ones = Inr ret"
    unfolding fftconvolve_def Let_def
    using nd False sz1 sz2
    by (simp add: inputs_swap_needed_def pyfftw_backend_def
        shp_eq fshape_eq hshape_eq p1(1) f1(1) p2(1) f2(1) f12(1) w(1) f12w(1) r(1) ret(1))
  then show ?thesis using ret(2,3) by (simp add: shp_def)
qed

lemma fftconvolve_full_bound:
  assumes nd: "ndim in1 = ndim in2" and sz1: "0 < size_of in1" and sz2: "0 < size_of in2"
    and run: "fftconvolve B in1 in2 ''full'' threads win_func = Inr r"
  shows "ndim in1 \<le> ndim r
    \<and> list_all2 (\<le>) (take (ndim in1) (shape r))
        (map (\<lambda>(a, b). max a b) (zip (shape in1) (shape in2)))"
proof (cases "ndim in2 = 0")
  case True
  then show ?thesis using nd by (simp add: ndim_def)
next
  case False
  define shp where "shp = map (\<lambda>(a, b). max a b) (zip (shape in1) (shape in2))"
  have shp_eq: "map (\<lambda>(a, b). max a b) (zip (shape in1) (shape in2)) = shp"
    by (simp add: shp_def)
  have lshp: "length shp = ndim in1" using nd by (simp add: shp_def ndim_def)
  have "length shp \<le> ndim r \<and> list_all2 (\<le>) (take (length shp) (shape r)) shp"
  proof (cases "rfft_path B")
    case True
    with run [unfolded fftconvolve_def Let_def] nd False sz1 sz2 obtain x where
      "slice_array (map (\<lambda>sz. (0::int, int sz)) shp) x = Inr r"
      by (auto simp: inputs_swap_needed_def shp_eq bind_Inr_iff)
    then show ?thesis by (rule slice_array_bound)
  next
    case no: False
    with run [unfolded fftconvolve_def Let_def] nd False sz1 sz2
    obtain x ret :: "cfl ndarray" where
      "slice_array (map (\<lambda>sz. (0::int, int sz)) shp) x = Inr ret" "shape r = shape ret"
      by (auto simp: inputs_swap_needed_def shp_eq bind_Inr_iff)
    then show ?thesis using slice_array_bound [of shp x ret] by (simp add: ndim_def)
  qed
  then show ?thesis unfolding lshp by (simp only: shp_def)
qed

lemma overlap_longer:
  fixes a b :: nat
  assumes "2 \<le> a" and "2 \<le> b"
  shows "max a b < a + b - 1"
  using assms by linarith

lemma rfftn2:
  "np_rfftn \<lparr>shape = [2], flat = [Fin a, Fin b]\<rparr>
    = Inr \<lparr>shape = [2], flat = [(Fin (a + b), Fin 0), (Fin (a - b), Fin 0)]\<rparr>"
  by (simp add: np_rfftn_def no_points_def half_shape_def tabulate_def
      upt2 dft_sum_def csum_def cmul_def of_fl_def twiddle_def item_def minus_fl_def)

lemma irfftn2:
  "np_irfftn \<lparr>shape = [2], flat = [(Fin p, Fin p'), (Fin q, Fin q')]\<rparr> [2]
    = Inr \<lparr>shape = [2], flat = [Fin ((p + q) / 2), Fin ((p - q) / 2)]\<rparr>"
  by (simp add: np_irfftn_def no_points_def tabulate_def
      upt2 dft_sum_def csum_def cmul_def of_fl_def twiddle_def item_def
      minus_fl_def ndim_def hermitian_def item_or_zero_def cconj_def)

lemma fft_pad2_keep:
  "fft_pad \<lparr>shape = [2], flat = [a, b]\<rparr> (PadSeq [Some 2]) mode
    = Inr \<lparr>shape = [2], flat = [a, b]\<rparr>"
  by (cases mode)
    (simp_all add: fft_pad_def calc_pad_def np_pad_def ndim_def pad_constant_def pad_median_def
      pad_median_axis_def padded_shape_def tabulate_def upt2 inside_def item_def Let_def)

lemma win_nd2_ones:
  "win_nd [Suc (Suc 0)] np_ones = Inr \<lparr>shape = [2], flat = [Fin 1, Fin 1]\<rparr>"
  by (simp add: win_nd_def np_ones_def tabulate_def upt2 Let_def bind_def)

lemma ifftshift_pair: "ifftshift \<lparr>shape = [2], flat = [a, b]\<rparr> = \<lparr>shape = [2], flat = [b, a]\<rparr>"
  by (simp add: ifftshift_def tabulate_def upt2 item_def)

lemma slice2:
  "slice_array [(0, 2)] \<lparr>shape = [2], flat = [a, b]\<rparr> = Inr \<lparr>shape = [2], flat = [a, b]\<rparr>"
  by (simp add: slice_array_def ndim_def slice_bound_def tabulate_def upt2 item_def Let_def)

lemma next_fast_len2: "next_fast_len 2 = 2"
  by (simp add: next_fast_len_def)

lemma fftconvolve2:
  "fftconvolve pyfftw_backend \<lparr>shape = [2], flat = [Fin 1, Fin 2]\<rparr>
      \<lparr>shape = [2], flat = [Fin 3, Fin 4]\<rparr> ''full'' 1 np_ones
    = Inr \<lparr>shape = [2], flat = [Fin 10, Fin 11]\<rparr>"
  by (simp add: fftconvolve_def ndim_def size_of_def inputs_swap_needed_def next_fast_len2
      pyfftw_backend_def fft_pad2_keep rfftn2 irfftn2 ifftshift_pair win_nd2_ones binop2 slice2
      cmul_def of_fl_def minus_fl_def Let_def)

lemma direct2:
  "direct_convolve \<lparr>shape = [2], flat = [Fin 1, Fin 2]\<rparr> \<lparr>shape = [2], flat = [Fin 3, Fin 4]\<rparr>
    = \<lparr>shape = [3], flat = [Fin 3, Fin 10, Fin 8]\<rparr>"
  by (simp add: direct_convolve_def tabulate_def upt2 upt3 item_def)

section \<open>Spectral and direct convolution\<close>

text \<open>
  C6: \<open>fftconvolve\<close> in \<^verbatim>\<open>'full'\<close> mode is to return the direct convolution, of extent
  \<open>s1 + s2 - 1\<close>. The code pads both operands to the fast length of \<open>max(s1, s2)\<close> only
  (its line \<^verbatim>\<open>shape = s1 + s2 - 1\<close> is commented out), pads the first operand with its
  median, and slices the result to \<open>max(s1, s2)\<close>. With the transforms of
  \<open>pyfftw_backend\<close> and the operands \<open>[1, 2]\<close> and \<open>[3, 4]\<close> it returns the two values
  \<open>[10, 11]\<close> of the circular convolution with the shifted second operand, where the
  direct convolution is \<open>[3, 10, 8]\<close>.
\<close>

theorem C6_full_mode_divergence:
  "fftconvolve pyfftw_backend \<lparr>shape = [2], flat = [Fin 1, Fin 2]\<rparr>
      \<lparr>shape = [2], flat = [Fin 3, Fin 4]\<rparr> ''full'' 1 np_ones
    = Inr \<lparr>shape = [2], flat = [Fin 10, Fin 11]\<rparr>
  \<and> direct_convolve \<lparr>shape = [2], flat = [Fin 1, Fin 2]\<rparr> \<lparr>shape = [2], flat = [Fin 3, Fin 4]\<rparr>
    = \<lparr>shape = [3], flat = [Fin 3, Fin 10, Fin 8]\<rparr>"
  by (simp add: fftconvolve2 direct2)

text \<open>
  The two operands above are not special. For every pair of non-empty arrays of the same
  rank, \<open>fftconvolve\<close> in \<^verbatim>\<open>'full'\<close> mode with the transforms of \<open>pyfftw_backend\<close> and
  the default window \<^verbatim>\<open>np.ones\<close> returns an array whose extent along every axis is
  \<open>max(s1, s2)\<close>. With any transforms and any window, a returned array has along each of
  the operands' axes an extent of at most \<open>max(s1, s2)\<close>, so it is not the direct
  convolution when both operands have an extent of at least 2 along some axis.
\<close>

lemma fftconvolve_full_shape:
  assumes "ndim in1 = ndim in2" and "0 < size_of in1" and "0 < size_of in2"
  shows "(\<exists>r. fftconvolve pyfftw_backend in1 in2 ''full'' threads np_ones = Inr r \<and> wf_array r
        \<and> shape r = map (\<lambda>(a, b). max a b) (zip (shape in1) (shape in2)))
    \<and> (\<forall>B win_func r. fftconvolve B in1 in2 ''full'' threads win_func = Inr r \<longrightarrow>
          ndim in1 \<le> ndim r
        \<and> list_all2 (\<le>) (take (ndim in1) (shape r))
            (map (\<lambda>(a, b). max a b) (zip (shape in1) (shape in2)))
        \<and> ((\<exists>k < ndim in1. 2 \<le> shape in1 ! k \<and> 2 \<le> shape in2 ! k)
            \<longrightarrow> r \<noteq> direct_convolve in1 in2))"
proof (intro conjI allI impI)
  show "\<exists>r. fftconvolve pyfftw_backend in1 in2 ''full'' threads np_ones = Inr r \<and> wf_array r
        \<and> shape r = map (\<lambda>(a, b). max a b) (zip (shape in1) (shape in2))"
    using assms by (rule fftconvolve_full_returns)
next
  fix B win_func r
  assume run: "fftconvolve B in1 in2 ''full'' threads win_func = Inr r"
  have bound: "ndim in1 \<le> ndim r
    \<and> list_all2 (\<le>) (take (ndim in1) (shape r))
        (map (\<lambda>(a, b). max a b) (zip (shape in1) (shape in2)))"
    using assms run by (rule fftconvolve_full_bound)
  show "ndim in1 \<le> ndim r" using bound by simp
  show "list_all2 (\<le>) (take (ndim in1) (shape r))
        (map (\<lambda>(a, b). max a b) (zip (shape in1) (shape in2)))" using bound by simp
  assume "\<exists>k < ndim in1. 2 \<le> shape in1 ! k \<and> 2 \<le> shape in2 ! k"
  then obtain k where k: "k < ndim in1" "2 \<le> shape in1 ! k" "2 \<le> shape in2 ! k" by blast
  have k': "k < length (shape in1)" "k < length (shape in2)" "k < length (shape r)"
    using k(1) assms(1) bound by (simp_all add: ndim_def)
  have la: "list_all2 (\<le>) (take (ndim in1) (shape r))
        (map (\<lambda>(a, b). max a b) (zip (shape in1) (shape in2)))" using bound by simp
  have lk: "k < length (take (ndim in1) (shape r))" using k' k(1) by (simp add: ndim_def)
  have "take (ndim in1) (shape r) ! k
      \<le> map (\<lambda>(a, b). max a b) (zip (shape in1) (shape in2)) ! k"
    using la lk by (rule list_all2_nthD)
  then have "shape r ! k \<le> max (shape in1 ! k) (shape in2 ! k)"
    using k' k(1) by simp
  also have "\<dots> < shape in1 ! k + shape in2 ! k - 1"
    using k(2,3) by (rule overlap_longer)
  also have "\<dots> = shape (direct_convolve in1 in2) ! k"
    using k' by (simp add: shape_direct_convolve)
  finally show "r \<noteq> direct_convolve in1 in2" by auto
qed

end
